theory Spec2Isabelle
  imports Complex_Main "HOL-Library.Word"
begin

section \<open>The frame-acquisition thread of \<^verbatim>\<open>gui/camera_feed.py\<close>\<close>

text \<open>
  The development embeds \<^verbatim>\<open>CameraGrabber\<close> (its constructor and its \<^verbatim>\<open>run\<close> method), the two
  GUI callbacks \<^verbatim>\<open>update_ui\<close> and \<^verbatim>\<open>on_close\<close> of \<^verbatim>\<open>_build_camera_window\<close>, and \<^verbatim>\<open>on_close\<close> of
  \<^verbatim>\<open>gui/motor_controls.py\<close> as far as it bears on the thread.

  The camera SDK, the clock, the file writer and the GUI event loop are outside the
  repository. What they answer is given to the model as a script: one value for the start-up
  phase, one record per pass through the \<^verbatim>\<open>while\<close> loop, one record for the two calls of the
  \<^verbatim>\<open>finally\<close> block. Wall-clock readings are real numbers (the rounding of Python floats is
  not modelled). Every SDK call, every \<^verbatim>\<open>cv2.imwrite\<close> call and every printed line is appended
  to a trace kept in the state, so that theorems can speak about what was attempted.

  Four things are taken from the libraries as they document themselves: with
  \<^verbatim>\<open>TimeoutHandling_ThrowException\<close> a retrieval that times out raises; \<^verbatim>\<open>IsGrabbing()\<close> answers
  and does not raise; \<^verbatim>\<open>cv2.imwrite\<close>, given a non-empty frame and the extension \<^verbatim>\<open>.jpg\<close>,
  reports a failed write by returning \<^verbatim>\<open>False\<close>; when the interpreter exits, a daemon thread
  that is still running is not waited for. The field \<^verbatim>\<open>converter\<close> is left out: it is
  assigned once in the start-up and only used to convert the retrieved frame.
\<close>

subsection \<open>Module constants\<close>

definition TARGET_UI_FPS :: nat where
  "TARGET_UI_FPS = 30"

definition SAVE_RATE :: real where
  "SAVE_RATE = 60"

definition TARGET_SAVE_INTERVAL :: real where
  "TARGET_SAVE_INTERVAL = 1 / SAVE_RATE"

definition BASE_DIR :: string where
  "BASE_DIR = ''/media/ben/Extreme SSD/particles_ML''"

text \<open>\<^verbatim>\<open>os.path.join\<close> of two components on POSIX.\<close>

definition path_join :: "string \<Rightarrow> string \<Rightarrow> string" where
  "path_join a b =
     (if b \<noteq> [] \<and> hd b = CHR ''/'' then b
      else if a = [] \<or> last a = CHR ''/'' then a @ b
      else a @ ''/'' @ b)"

text \<open>The session folder is named by the start-up timestamp, a run-time value.\<close>

definition RUN_DIR :: "string \<Rightarrow> string" where
  "RUN_DIR timestamp = path_join BASE_DIR timestamp"

definition IMAGES_DIR :: "string \<Rightarrow> string" where
  "IMAGES_DIR timestamp = path_join (RUN_DIR timestamp) ''images''"

subsection \<open>The format \<^verbatim>\<open>frame_{index:06d}.jpg\<close>\<close>

definition digit_char :: "nat \<Rightarrow> char" where
  "digit_char d = ''0123456789'' ! d"

fun dec :: "nat \<Rightarrow> string" where
  "dec n = (if n < 10 then [digit_char n] else dec (n div 10) @ [digit_char (n mod 10)])"

declare dec.simps [simp del]

text \<open>\<^verbatim>\<open>:06d\<close> pads with zeros on the left up to a width of six and never truncates.\<close>

definition fmt_06d :: "nat \<Rightarrow> string" where
  "fmt_06d n = replicate (6 - length (dec n)) (CHR ''0'') @ dec n"

definition frame_name :: "nat \<Rightarrow> string" where
  "frame_name i = ''frame_'' @ fmt_06d i @ ''.jpg''"

subsection \<open>Data\<close>

text \<open>A frame is the Mono8 array returned by \<^verbatim>\<open>GetArray()\<close>: rows of 8-bit pixels.\<close>

type_synonym frame = "8 word list list"

text \<open>The \<^verbatim>\<open>InstantCamera\<close> object, with the one bit of device state the claims need.\<close>

datatype InstantCamera = InstantCamera (is_open: bool)

datatype sdk_call = Open | StartGrabbing | RetrieveResult | Release | StopGrabbing | Close

text \<open>
  One entry per execution of lines 75 to 78: the file name passed to \<^verbatim>\<open>cv2.imwrite\<close>, the
  value of \<^verbatim>\<open>frame_index\<close> it was built from, the frame, the clock reading \<^verbatim>\<open>now\<close> stored
  into \<^verbatim>\<open>last_save_time\<close>, and the boolean that \<^verbatim>\<open>cv2.imwrite\<close> returned.
\<close>

record save_attempt =
  filename :: string
  idx :: nat
  image :: frame
  stamp :: real
  written :: bool

text \<open>
  The fields of the \<^verbatim>\<open>CameraGrabber\<close> object (\<^verbatim>\<open>daemon\<close> is the flag of \<^verbatim>\<open>threading.Thread\<close>
  that the constructor sets), the two objects it shares with the window (\<^verbatim>\<open>q\<close> and
  \<^verbatim>\<open>stop_event\<close>), and the traces.
\<close>

record state =
  daemon :: bool
  q :: "frame list"
  stop_event :: bool
  cam :: "InstantCamera option"
  err :: "string option"
  frame_index :: nat
  last_save_time :: real
  calls :: "sdk_call list"
  imwrites :: "save_attempt list"
  stdout :: "string list"

text \<open>
  \<^verbatim>\<open>queue.Queue(maxsize=2)\<close>, \<^verbatim>\<open>threading.Event()\<close> and \<^verbatim>\<open>CameraGrabber.__init__\<close>, which
  starts with \<^verbatim>\<open>super().__init__(daemon=True)\<close>.
\<close>

definition maxsize :: nat where
  "maxsize = 2"

definition init :: state where
  "init = \<lparr> daemon = True, q = [], stop_event = False, cam = None, err = None, frame_index = 0,
            last_save_time = 0, calls = [], imwrites = [], stdout = [] \<rparr>"

subsection \<open>The preview queue\<close>

datatype queue_error = Full | Empty

text \<open>\<^verbatim>\<open>Queue.put_nowait\<close>: raises \<^verbatim>\<open>Full\<close> at once when a bounded queue holds \<^verbatim>\<open>maxsize\<close> items.\<close>

definition put_nowait :: "frame list \<Rightarrow> frame \<Rightarrow> queue_error + frame list" where
  "put_nowait xs x = (if 0 < maxsize \<and> maxsize \<le> length xs then Inl Full else Inr (xs @ [x]))"

definition get_nowait :: "frame list \<Rightarrow> queue_error + frame \<times> frame list" where
  "get_nowait xs = (case xs of [] \<Rightarrow> Inl Empty | x # r \<Rightarrow> Inr (x, r))"

text \<open>Lines 67 to 70: \<^verbatim>\<open>try: self.q.put_nowait(frame)  except queue.Full: pass\<close>.\<close>

definition offer :: "frame \<Rightarrow> state \<Rightarrow> state" where
  "offer f s = (case put_nowait (q s) f of Inl e \<Rightarrow> s | Inr xs \<Rightarrow> s\<lparr>q := xs\<rparr>)"

subsection \<open>The persistence path\<close>

text \<open>
  Lines 73 to 78. \<^verbatim>\<open>now\<close> is what \<^verbatim>\<open>time.time()\<close> returned, \<^verbatim>\<open>ok\<close> what \<^verbatim>\<open>cv2.imwrite\<close> returned
  (the source does not look at it), \<open>dir\<close> is \<^verbatim>\<open>IMAGES_DIR\<close>.
\<close>

definition persist :: "string \<Rightarrow> real \<Rightarrow> bool \<Rightarrow> frame \<Rightarrow> state \<Rightarrow> state" where
  "persist dir now ok f s =
     (if now - last_save_time s \<ge> TARGET_SAVE_INTERVAL then
        s\<lparr> imwrites := imwrites s @
              [\<lparr> filename = path_join dir (frame_name (frame_index s)), idx = frame_index s,
                 image = f, stamp = now, written = ok \<rparr>],
           last_save_time := now,
           frame_index := frame_index s + 1 \<rparr>
      else s)"

subsection \<open>The window callbacks\<close>

datatype info = ErrorText string | Streaming nat

text \<open>
  \<^verbatim>\<open>update_ui\<close>: call \<^verbatim>\<open>q.get_nowait()\<close> until it raises \<^verbatim>\<open>Empty\<close>, keeping the last frame, then
  show either \<^verbatim>\<open>[!]\<close> and the error, or the saved-frame count. \<^verbatim>\<open>if grabber.err\<close> is Python
  truthiness: neither \<^verbatim>\<open>None\<close> nor empty. The model returns the frame to display and the text,
  and the state with the queue as the reads left it.
\<close>

function drain :: "frame list \<Rightarrow> frame option \<Rightarrow> frame option \<times> frame list" where
  "drain xs fr = (case get_nowait xs of Inl e \<Rightarrow> (fr, xs) | Inr (x, r) \<Rightarrow> drain r (Some x))"
  by pat_completeness auto
termination
  by (relation "measure (\<lambda>(xs, fr). length xs)") (auto simp add: get_nowait_def split: list.splits)

declare drain.simps [simp del]

definition update_ui :: "state \<Rightarrow> (frame option \<times> info) \<times> state" where
  "update_ui s =
     ((fst (drain (q s) None),
       (case err s of
          None \<Rightarrow> Streaming (frame_index s)
        | Some m \<Rightarrow> if m \<noteq> [] then ErrorText m else Streaming (frame_index s))),
      s\<lparr>q := snd (drain (q s) None)\<rparr>)"

definition on_close :: "state \<Rightarrow> state" where
  "on_close s = s\<lparr>stop_event := True\<rparr>"

subsection \<open>The script of the environment\<close>

text \<open>
  What \<^verbatim>\<open>RetrieveResult(5000, TimeoutHandling_ThrowException)\<close> can do: return a result whose
  \<^verbatim>\<open>GrabSucceeded()\<close> is true or false, raise the SDK's timeout exception, or raise anything
  else. The string is \<^verbatim>\<open>str(e)\<close>.
\<close>

datatype retrieve_outcome =
    Grabbed frame
  | GrabFailed
  | TimeoutException string
  | OtherException string

text \<open>
  One pass through the loop: whether the window was closed or a UI tick ran since the last
  pass, what \<^verbatim>\<open>IsGrabbing()\<close> answers, the retrieval, the clock and the file writer.
\<close>

record iter_env =
  window_closed :: bool
  ui_tick :: bool
  is_grabbing :: bool
  outcome :: retrieve_outcome
  now :: real
  write_ok :: bool

text \<open>
  Lines 41 to 59: no device enumerated; an exception before \<^verbatim>\<open>self.cam\<close> is assigned (lines 41
  to 47); an exception raised by \<^verbatim>\<open>Open()\<close>; an exception after \<^verbatim>\<open>Open()\<close> returned and before
  \<^verbatim>\<open>StartGrabbing\<close> is called (lines 49 to 58), with the model name if line 49 had printed it;
  an exception raised by \<^verbatim>\<open>StartGrabbing\<close> itself (line 59), with the model name printed; or
  success, with the model name that is printed. The strings of the exceptions are \<^verbatim>\<open>str(e)\<close>.
\<close>

datatype startup =
    NoDevices
  | RaisedBeforeCam string
  | RaisedInOpen string
  | RaisedAfterOpen "string option" string
  | RaisedInStartGrabbing string string
  | Started string

record teardown_env =
  stop_grabbing_raises :: bool
  close_raises :: bool

subsection \<open>The loop\<close>

datatype step_result =
    Continue (step_state: state)
  | Break (step_state: state)
  | Raise string (step_state: state)

text \<open>
  One evaluation of the loop condition and, if it holds, of the body (lines 61 to 80). The GUI
  events of the script are applied first.
\<close>

definition gui_events :: "iter_env \<Rightarrow> state \<Rightarrow> state" where
  "gui_events e s =
     (let s1 = (if ui_tick e then snd (update_ui s) else s)
      in if window_closed e then on_close s1 else s1)"

definition loop_iter :: "string \<Rightarrow> iter_env \<Rightarrow> state \<Rightarrow> step_result" where
  "loop_iter dir e s0 =
     (let s = gui_events e s0 in
      if \<not> stop_event s \<and> is_grabbing e then
        let s1 = s\<lparr>calls := calls s @ [RetrieveResult]\<rparr> in
        case outcome e of
          TimeoutException m \<Rightarrow> Raise m s1
        | OtherException m \<Rightarrow> Raise m s1
        | GrabFailed \<Rightarrow> Continue (s1\<lparr>calls := calls s1 @ [Release]\<rparr>)
        | Grabbed f \<Rightarrow>
            (let s2 = persist dir (now e) (write_ok e) f (offer f s1)
             in Continue (s2\<lparr>calls := calls s2 @ [Release]\<rparr>))
      else Break s)"

datatype loop_result =
    StillRunning (loop_state: state)
  | Exited (loop_state: state)
  | Raised string (loop_state: state)

text \<open>
  The \<^verbatim>\<open>while\<close> loop over the script. A script that ends while the loop condition still holds
  leaves the thread inside the loop.
\<close>

fun run_loop :: "string \<Rightarrow> iter_env list \<Rightarrow> state \<Rightarrow> loop_result" where
  "run_loop dir [] s = StillRunning s"
| "run_loop dir (e # es) s =
     (case loop_iter dir e s of
        Continue s' \<Rightarrow> run_loop dir es s'
      | Break s' \<Rightarrow> Exited s'
      | Raise m s' \<Rightarrow> Raised m s')"

subsection \<open>\<^verbatim>\<open>run\<close>: try, except, finally\<close>

definition stopped_line :: string where
  "stopped_line = ''[camera] Stopped grabbing.''"

text \<open>Lines 41 to 80, the body of the \<^verbatim>\<open>try\<close>.\<close>

definition try_body :: "string \<Rightarrow> startup \<Rightarrow> iter_env list \<Rightarrow> state \<Rightarrow> loop_result" where
  "try_body dir st es s =
     (case st of
        NoDevices \<Rightarrow> Exited (s\<lparr>err := Some ''No Basler camera found''\<rparr>)
      | RaisedBeforeCam m \<Rightarrow> Raised m s
      | RaisedInOpen m \<Rightarrow>
          Raised m (s\<lparr>cam := Some (InstantCamera False), calls := calls s @ [Open]\<rparr>)
      | RaisedAfterOpen printed m \<Rightarrow>
          Raised m (s\<lparr>cam := Some (InstantCamera True), calls := calls s @ [Open],
                      stdout := stdout s @
                        (case printed of None \<Rightarrow> []
                         | Some nm \<Rightarrow> [''[camera] Connected: '' @ nm])\<rparr>)
      | RaisedInStartGrabbing nm m \<Rightarrow>
          Raised m (s\<lparr>cam := Some (InstantCamera True), calls := calls s @ [Open, StartGrabbing],
                      stdout := stdout s @ [''[camera] Connected: '' @ nm]\<rparr>)
      | Started nm \<Rightarrow>
          run_loop dir es
            (s\<lparr>cam := Some (InstantCamera True), calls := calls s @ [Open, StartGrabbing],
               stdout := stdout s @ [''[camera] Connected: '' @ nm]\<rparr>))"

text \<open>
  Lines 85 to 92. \<^verbatim>\<open>StopGrabbing()\<close> and \<^verbatim>\<open>Close()\<close> stand in one \<^verbatim>\<open>try\<close>, under \<^verbatim>\<open>if self.cam\<close>:
  when the first raises the second is not called. A \<^verbatim>\<open>Close()\<close> that returns closes the camera.
\<close>

definition finally_block :: "teardown_env \<Rightarrow> state \<Rightarrow> state" where
  "finally_block t s =
     (let s1 =
        (case cam s of
           None \<Rightarrow> s
         | Some c \<Rightarrow>
             (let s' = s\<lparr>calls := calls s @ [StopGrabbing]\<rparr> in
              if stop_grabbing_raises t then s'
              else
                let s'' = s'\<lparr>calls := calls s' @ [Close]\<rparr> in
                if close_raises t then s'' else s''\<lparr>cam := Some (InstantCamera False)\<rparr>))
      in s1\<lparr>stdout := stdout s1 @ [stopped_line]\<rparr>)"

text \<open>
  The thread is either still inside the loop (the script ran out first) or has ended, the
  \<^verbatim>\<open>finally\<close> block done. No exception leaves \<^verbatim>\<open>run\<close>: \<^verbatim>\<open>except Exception\<close> catches what the
  body raises and stores its string in \<^verbatim>\<open>err\<close>, and in the \<^verbatim>\<open>finally\<close> block
  \<^verbatim>\<open>except Exception: pass\<close> drops what its own calls raise.
\<close>

datatype run_result =
    is_Running: Running (state_of: state)
  | is_Terminated: Terminated (state_of: state)

definition run :: "string \<Rightarrow> startup \<Rightarrow> iter_env list \<Rightarrow> teardown_env \<Rightarrow> state \<Rightarrow> run_result" where
  "run dir st es t s =
     (case try_body dir st es s of
        StillRunning s' \<Rightarrow> Running s'
      | Exited s' \<Rightarrow> Terminated (finally_block t s')
      | Raised m s' \<Rightarrow> Terminated (finally_block t (s'\<lparr>err := Some m\<rparr>)))"

text \<open>Consumer reads after the thread has ended: \<^verbatim>\<open>n\<close> ticks of \<^verbatim>\<open>update_ui\<close>.\<close>

fun ui_polls :: "nat \<Rightarrow> state \<Rightarrow> state" where
  "ui_polls 0 s = s"
| "ui_polls (Suc n) s = ui_polls n (snd (update_ui s))"

subsection \<open>The end of the process\<close>

text \<open>
  How the thread stands when the interpreter exits. A thread that has returned is as it
  ended. A daemon thread that is still running is abandoned where it is: no statement of it
  runs any more, so neither its \<^verbatim>\<open>except\<close> nor its \<^verbatim>\<open>finally\<close> block; the interpreter does not wait
  for it. A thread that is not a daemon is waited for.
\<close>

datatype thread_end = Returned state | Killed state | Joined state

definition interpreter_exit :: "run_result \<Rightarrow> thread_end" where
  "interpreter_exit r =
     (case r of
        Terminated s \<Rightarrow> Returned s
      | Running s \<Rightarrow> if daemon s then Killed s else Joined s)"

text \<open>
  \<^verbatim>\<open>on_close\<close> of \<^verbatim>\<open>gui/motor_controls.py\<close> (lines 111 to 125), the handler of the root window, to
  which \<^verbatim>\<open>main.py\<close> attaches the camera window: it stops the motor, closes the serial port, calls
  \<^verbatim>\<open>root.destroy()\<close>, which destroys the camera window without calling the handler of that
  window, and then \<^verbatim>\<open>sys.exit(0)\<close>. Of what it shares with the camera thread it touches
  nothing: \<^verbatim>\<open>stop_event\<close> stays as it is.
\<close>

definition motor_controls_on_close :: "run_result \<Rightarrow> thread_end" where
  "motor_controls_on_close r = interpreter_exit r"

subsection \<open>Predicates and projections used in the statements\<close>

text \<open>
  The cadence state is the triple of the save trace, \<^verbatim>\<open>frame_index\<close> and \<^verbatim>\<open>last_save_time\<close>.
  Only a pass that retrieved a frame touches it, through \<open>persist\<close>.
\<close>

definition cadence :: "state \<Rightarrow> save_attempt list \<times> nat \<times> real" where
  "cadence s = (imwrites s, frame_index s, last_save_time s)"

text \<open>
  Consecutive save attempts are at least the target interval apart, and the last one is at
  \<^verbatim>\<open>last_save_time\<close>.
\<close>

definition spaced :: "save_attempt list \<times> nat \<times> real \<Rightarrow> bool" where
  "spaced c = (case c of (ws, n, l) \<Rightarrow>
     successively (\<lambda>a b. TARGET_SAVE_INTERVAL \<le> b - a) (map stamp ws)
     \<and> (ws = [] \<or> stamp (last ws) = l))"

text \<open>
  The save attempts made so far carry the indices \<open>0, 1, \<dots>\<close> up to \<^verbatim>\<open>frame_index\<close>, in this
  order, each under the file name built from its index.
\<close>

definition indexed :: "string \<Rightarrow> save_attempt list \<times> nat \<times> real \<Rightarrow> bool" where
  "indexed dir c = (case c of (ws, n, l) \<Rightarrow>
     map idx ws = [0..<n] \<and> map filename ws = map (\<lambda>i. path_join dir (frame_name i)) [0..<n])"

text \<open>The number a string of decimal digits denotes.\<close>

definition digit_val :: "char \<Rightarrow> nat" where
  "digit_val c = length (takeWhile (\<lambda>d. d \<noteq> c) ''0123456789'')"

definition val :: "string \<Rightarrow> nat" where
  "val cs = foldl (\<lambda>n c. 10 * n + digit_val c) 0 cs"

text \<open>
  What holds of the state whenever the thread is inside the loop: no error recorded, the stop
  event not yet seen set, the camera open, one line printed, no teardown call made.
\<close>

definition in_loop :: "string \<Rightarrow> state \<Rightarrow> bool" where
  "in_loop nm s = (err s = None \<and> \<not> stop_event s \<and> cam s = Some (InstantCamera True)
     \<and> stdout s = [''[camera] Connected: '' @ nm]
     \<and> StopGrabbing \<notin> set (calls s) \<and> Close \<notin> set (calls s))"

text \<open>
  What holds of the state when the \<^verbatim>\<open>finally\<close> block is entered: no teardown call made, no
  teardown line printed.
\<close>

definition before_teardown :: "state \<Rightarrow> bool" where
  "before_teardown s = (StopGrabbing \<notin> set (calls s) \<and> Close \<notin> set (calls s)
     \<and> stopped_line \<notin> set (stdout s))"

text \<open>The calls of the \<^verbatim>\<open>finally\<close> block on a camera object.\<close>

definition teardown_calls :: "teardown_env \<Rightarrow> sdk_call list" where
  "teardown_calls t = StopGrabbing # (if stop_grabbing_raises t then [] else [Close])"

subsection \<open>Example scripts\<close>

text \<open>A pass with no GUI event, the camera grabbing.\<close>

definition pass :: "retrieve_outcome \<Rightarrow> real \<Rightarrow> bool \<Rightarrow> iter_env" where
  "pass out t ok = \<lparr> window_closed = False, ui_tick = False, is_grabbing = True,
          outcome = out, now = t, write_ok = ok \<rparr>"

text \<open>A teardown in which neither call raises.\<close>

definition quiet :: teardown_env where
  "quiet = \<lparr> stop_grabbing_raises = False, close_raises = False \<rparr>"

text \<open>Two passes, each retrieving a frame, one second apart.\<close>

definition two_frames :: "iter_env list" where
  "two_frames = [pass (Grabbed [[7]]) 100 True, pass (Grabbed [[8]]) 101 True]"

text \<open>The state inside the loop after the two passes of \<open>two_frames\<close>.\<close>

definition after_two_frames :: state where
  "after_two_frames =
     \<lparr> daemon = True, q = [[[7]], [[8]]], stop_event = False, cam = Some (InstantCamera True),
       err = None, frame_index = 2, last_save_time = 101,
       calls = [Open, StartGrabbing, RetrieveResult, Release, RetrieveResult, Release],
       imwrites = [\<lparr> filename = ''d/frame_000000.jpg'', idx = 0, image = [[7]], stamp = 100, written = True \<rparr>,
                   \<lparr> filename = ''d/frame_000001.jpg'', idx = 1, image = [[8]], stamp = 101, written = True \<rparr>],
       stdout = [''[camera] Connected: cam''] \<rparr>"

text \<open>Two passes, each retrieving a frame; the first \<^verbatim>\<open>cv2.imwrite\<close> returns \<^verbatim>\<open>False\<close>.\<close>

definition first_write_fails :: "iter_env list" where
  "first_write_fails = [pass (Grabbed [[7]]) 100 False, pass (Grabbed [[8]]) 101 True]"

text \<open>A pass before which the window was closed, and one whose retrieval times out.\<close>

definition closing :: iter_env where
  "closing = \<lparr> window_closed = True, ui_tick = False, is_grabbing = True,
               outcome = Grabbed [[9]], now = 102, write_ok = True \<rparr>"

definition timing_out :: iter_env where
  "timing_out = pass (TimeoutException ''Grab timed out.'') 105 True"

text \<open>A pass whose retrieval raises an exception that is not a timeout.\<close>

definition device_removed :: iter_env where
  "device_removed = pass (OtherException ''Device removed.'') 103 True"

text \<open>A pass whose retrieval raises an exception with an empty string.\<close>

definition silent_failure :: iter_env where
  "silent_failure = pass (OtherException []) 103 True"

text \<open>A teardown in which \<^verbatim>\<open>StopGrabbing()\<close> raises.\<close>

definition stop_grabbing_fails :: teardown_env where
  "stop_grabbing_fails = \<lparr> stop_grabbing_raises = True, close_raises = False \<rparr>"

text \<open>The frames retrieved in the passes of a script, in order.\<close>

definition grabbed_frames :: "iter_env list \<Rightarrow> frame list" where
  "grabbed_frames es = concat (map (\<lambda>e. case outcome e of Grabbed f \<Rightarrow> [f] | _ \<Rightarrow> []) es)"

section \<open>Properties\<close>

subsection \<open>The preview queue\<close>

lemma q_offer: "q (offer f s) = (if maxsize \<le> length (q s) then q s else q s @ [f])"
  by (simp add: offer_def put_nowait_def maxsize_def)

lemma offer_full: "maxsize \<le> length (q s) \<Longrightarrow> offer f s = s"
  by (simp add: offer_def put_nowait_def maxsize_def)

lemma q_fold_offer:
  "length (q s) \<le> maxsize \<Longrightarrow> q (fold offer fs s) = take maxsize (q s @ fs)"
proof (induction fs arbitrary: s)
  case Nil
  then show ?case by simp
next
  case (Cons f fs)
  show ?case
  proof (cases "maxsize \<le> length (q s)")
    case True
    with Cons.prems have len: "length (q s) = maxsize" by simp
    have "q (fold offer fs (offer f s)) = take maxsize (q s @ fs)"
      using Cons.IH [of s] Cons.prems True by (simp add: offer_full)
    then show ?thesis using len by simp
  next
    case False
    then have "length (q (offer f s)) \<le> maxsize" by (simp add: q_offer)
    from Cons.IH [OF this] show ?thesis using False by (simp add: q_offer)
  qed
qed

lemma length_q_fold_offer:
  "length (q s) \<le> maxsize \<Longrightarrow> length (q (fold offer fs s)) \<le> maxsize"
  by (simp add: q_fold_offer)

subsection \<open>Fields that the parts of the loop leave alone\<close>

lemma snd_drain [simp]: "snd (drain xs fr) = []"
  by (induction xs fr rule: drain.induct)
     (subst drain.simps, simp add: get_nowait_def split: list.splits)

lemma q_update_ui [simp]: "q (snd (update_ui s)) = []"
  by (simp add: update_ui_def)

lemma gui_events_fields [simp]:
  "daemon (gui_events e s) = daemon s"
  "err (gui_events e s) = err s"
  "frame_index (gui_events e s) = frame_index s"
  "last_save_time (gui_events e s) = last_save_time s"
  "imwrites (gui_events e s) = imwrites s"
  "calls (gui_events e s) = calls s"
  "cam (gui_events e s) = cam s"
  "stdout (gui_events e s) = stdout s"
  "stop_event (gui_events e s) = (window_closed e \<or> stop_event s)"
  by (simp_all add: gui_events_def update_ui_def on_close_def Let_def)

lemma offer_fields [simp]:
  "daemon (offer f s) = daemon s"
  "err (offer f s) = err s"
  "frame_index (offer f s) = frame_index s"
  "last_save_time (offer f s) = last_save_time s"
  "imwrites (offer f s) = imwrites s"
  "calls (offer f s) = calls s"
  "cam (offer f s) = cam s"
  "stdout (offer f s) = stdout s"
  "stop_event (offer f s) = stop_event s"
  by (simp_all add: offer_def split: sum.splits)

lemma persist_fields [simp]:
  "daemon (persist dir t ok f s) = daemon s"
  "err (persist dir t ok f s) = err s"
  "calls (persist dir t ok f s) = calls s"
  "cam (persist dir t ok f s) = cam s"
  "stdout (persist dir t ok f s) = stdout s"
  "stop_event (persist dir t ok f s) = stop_event s"
  "q (persist dir t ok f s) = q s"
  by (simp_all add: persist_def)

lemma finally_block_fields [simp]:
  "daemon (finally_block t s) = daemon s"
  "err (finally_block t s) = err s"
  "frame_index (finally_block t s) = frame_index s"
  "last_save_time (finally_block t s) = last_save_time s"
  "imwrites (finally_block t s) = imwrites s"
  "stop_event (finally_block t s) = stop_event s"
  "q (finally_block t s) = q s"
  "stdout (finally_block t s) = stdout s @ [stopped_line]"
  by (simp_all add: finally_block_def Let_def split: option.splits)

subsection \<open>One pass of the loop, case by case\<close>

lemma loop_iter_break:
  "window_closed e \<or> stop_event s \<or> \<not> is_grabbing e \<Longrightarrow> loop_iter dir e s = Break (gui_events e s)"
  by (auto simp add: loop_iter_def Let_def)

lemma loop_iter_timeout:
  "\<not> window_closed e \<Longrightarrow> \<not> stop_event s \<Longrightarrow> is_grabbing e \<Longrightarrow> outcome e = TimeoutException m \<Longrightarrow>
   loop_iter dir e s = Raise m ((gui_events e s)\<lparr>calls := calls s @ [RetrieveResult]\<rparr>)"
  by (simp add: loop_iter_def Let_def)

lemma loop_iter_other:
  "\<not> window_closed e \<Longrightarrow> \<not> stop_event s \<Longrightarrow> is_grabbing e \<Longrightarrow> outcome e = OtherException m \<Longrightarrow>
   loop_iter dir e s = Raise m ((gui_events e s)\<lparr>calls := calls s @ [RetrieveResult]\<rparr>)"
  by (simp add: loop_iter_def Let_def)

lemma loop_iter_grab_failed:
  "\<not> window_closed e \<Longrightarrow> \<not> stop_event s \<Longrightarrow> is_grabbing e \<Longrightarrow> outcome e = GrabFailed \<Longrightarrow>
   loop_iter dir e s = Continue ((gui_events e s)\<lparr>calls := calls s @ [RetrieveResult, Release]\<rparr>)"
  by (simp add: loop_iter_def Let_def)

lemma loop_iter_grabbed:
  "\<not> window_closed e \<Longrightarrow> \<not> stop_event s \<Longrightarrow> is_grabbing e \<Longrightarrow> outcome e = Grabbed f \<Longrightarrow>
   loop_iter dir e s =
     Continue ((persist dir (now e) (write_ok e) f
                 (offer f ((gui_events e s)\<lparr>calls := calls s @ [RetrieveResult]\<rparr>)))
               \<lparr>calls := calls s @ [RetrieveResult, Release]\<rparr>)"
  by (simp add: loop_iter_def Let_def)

lemma loop_iter_cases:
  obtains (break) "window_closed e \<or> stop_event s \<or> \<not> is_grabbing e"
  | (timeout) m where "\<not> window_closed e" "\<not> stop_event s" "is_grabbing e" "outcome e = TimeoutException m"
  | (other) m where "\<not> window_closed e" "\<not> stop_event s" "is_grabbing e" "outcome e = OtherException m"
  | (failed) "\<not> window_closed e" "\<not> stop_event s" "is_grabbing e" "outcome e = GrabFailed"
  | (grabbed) f where "\<not> window_closed e" "\<not> stop_event s" "is_grabbing e" "outcome e = Grabbed f"
  by (cases "outcome e") auto

text \<open>An invariant of every pass is an invariant of the loop.\<close>

lemma run_loop_invariant:
  assumes "P s" and "\<And>e s. P s \<Longrightarrow> P (step_state (loop_iter dir e s))"
  shows "P (loop_state (run_loop dir es s))"
  using assms(1)
proof (induction es arbitrary: s)
  case Nil
  then show ?case by simp
next
  case (Cons e es)
  from assms(2) [OF Cons.prems, of e] have st: "P (step_state (loop_iter dir e s))" .
  show ?case
  proof (cases "loop_iter dir e s")
    case (Continue s')
    with st have "P s'" by simp
    from Cons.IH [OF this] Continue show ?thesis by simp
  next
    case (Break s')
    with st show ?thesis by simp
  next
    case (Raise m s')
    with st show ?thesis by simp
  qed
qed

lemma run_loop_append:
  "run_loop dir pre s = StillRunning s1 \<Longrightarrow> run_loop dir (pre @ es) s = run_loop dir es s1"
  by (induction pre arbitrary: s) (auto split: step_result.splits)

lemma err_loop_iter [simp]: "err (step_state (loop_iter dir e s)) = err s"
  by (rule loop_iter_cases [of e s])
     (simp_all add: loop_iter_break loop_iter_timeout loop_iter_other loop_iter_grab_failed loop_iter_grabbed)

lemma err_run_loop [simp]: "err (loop_state (run_loop dir es s)) = err s"
  by (rule run_loop_invariant [where P = "\<lambda>x. err x = err s"]) simp_all

subsection \<open>Invariants of the whole thread\<close>

lemma cadence_loop_iter:
  "cadence (step_state (loop_iter dir e s)) = cadence s \<or>
   (\<exists>f x. cadence (step_state (loop_iter dir e s)) = cadence (persist dir (now e) (write_ok e) f x)
          \<and> cadence x = cadence s)"
proof (rule loop_iter_cases [of e s])
  fix f
  assume h: "\<not> window_closed e" "\<not> stop_event s" "is_grabbing e" "outcome e = Grabbed f"
  let ?x = "offer f ((gui_events e s)\<lparr>calls := calls s @ [RetrieveResult]\<rparr>)"
  have "cadence (step_state (loop_iter dir e s)) = cadence (persist dir (now e) (write_ok e) f ?x)"
    using h by (simp add: loop_iter_grabbed cadence_def)
  moreover have "cadence ?x = cadence s" by (simp add: cadence_def)
  ultimately show ?thesis by blast
qed (simp_all add: loop_iter_break loop_iter_timeout loop_iter_other loop_iter_grab_failed cadence_def)

lemma cadence_try_body_start:
  "\<exists>s0. cadence s0 = cadence s \<and> err s0 = err s \<and> stop_event s0 = stop_event s \<and>
     (case st of Started nm \<Rightarrow> try_body dir st es s = run_loop dir es s0
      | NoDevices \<Rightarrow> try_body dir st es s = Exited (s0\<lparr>err := Some ''No Basler camera found''\<rparr>)
      | RaisedBeforeCam m \<Rightarrow> try_body dir st es s = Raised m s0
      | RaisedInOpen m \<Rightarrow> try_body dir st es s = Raised m s0
      | RaisedAfterOpen printed m \<Rightarrow> try_body dir st es s = Raised m s0
      | RaisedInStartGrabbing nm m \<Rightarrow> try_body dir st es s = Raised m s0)"
proof (cases st)
  case NoDevices
  then show ?thesis by (auto simp add: try_body_def)
next
  case (RaisedBeforeCam m)
  then show ?thesis by (auto simp add: try_body_def)
next
  case (RaisedInOpen m)
  then show ?thesis
    by (auto simp add: try_body_def cadence_def
        intro!: exI [of _ "s\<lparr>cam := Some (InstantCamera False), calls := calls s @ [Open]\<rparr>"])
next
  case (RaisedAfterOpen printed m)
  then show ?thesis
    by (auto simp add: try_body_def cadence_def
        intro!: exI [of _ "s\<lparr>cam := Some (InstantCamera True), calls := calls s @ [Open],
                      stdout := stdout s @
                        (case printed of None \<Rightarrow> []
                         | Some nm \<Rightarrow> [''[camera] Connected: '' @ nm])\<rparr>"])
next
  case (RaisedInStartGrabbing nm m)
  then show ?thesis
    by (auto simp add: try_body_def cadence_def
        intro!: exI [of _ "s\<lparr>cam := Some (InstantCamera True), calls := calls s @ [Open, StartGrabbing],
               stdout := stdout s @ [''[camera] Connected: '' @ nm]\<rparr>"])
next
  case (Started nm)
  then show ?thesis
    by (auto simp add: try_body_def cadence_def
        intro!: exI [of _ "s\<lparr>cam := Some (InstantCamera True), calls := calls s @ [Open, StartGrabbing],
               stdout := stdout s @ [''[camera] Connected: '' @ nm]\<rparr>"])
qed

lemma cadence_finally_block [simp]: "cadence (finally_block t s) = cadence s"
  by (simp add: cadence_def)

lemma cadence_err_update [simp]: "cadence (s\<lparr>err := x\<rparr>) = cadence s"
  by (simp add: cadence_def)

lemma run_cadence_invariant:
  assumes init: "Q (cadence s)"
    and step: "\<And>now ok f x. Q (cadence x) \<Longrightarrow> Q (cadence (persist dir now ok f x))"
  shows "Q (cadence (state_of (run dir st es t s)))"
proof -
  have pass: "Q (cadence (step_state (loop_iter dir e x)))" if "Q (cadence x)" for e x
    using cadence_loop_iter [of dir e x] that step by (metis (full_types))
  have loop: "Q (cadence (loop_state (run_loop dir es x)))" if "Q (cadence x)" for x
    using that pass by (rule run_loop_invariant [where P = "\<lambda>y. Q (cadence y)"])
  obtain s0 where s0: "cadence s0 = cadence s"
    and tb: "case st of Started nm \<Rightarrow> try_body dir st es s = run_loop dir es s0
      | NoDevices \<Rightarrow> try_body dir st es s = Exited (s0\<lparr>err := Some ''No Basler camera found''\<rparr>)
      | RaisedBeforeCam m \<Rightarrow> try_body dir st es s = Raised m s0
      | RaisedInOpen m \<Rightarrow> try_body dir st es s = Raised m s0
      | RaisedAfterOpen printed m \<Rightarrow> try_body dir st es s = Raised m s0
      | RaisedInStartGrabbing nm m \<Rightarrow> try_body dir st es s = Raised m s0"
    using cadence_try_body_start [where s = s and st = st and dir = dir and es = es] by blast
  have "Q (cadence (loop_state (try_body dir st es s)))"
    using tb s0 init loop [of s0] by (cases st) simp_all
  then show ?thesis
    by (cases "try_body dir st es s") (simp_all add: run_def)
qed

subsection \<open>The save cadence\<close>

lemma cadence_persist:
  "cadence (persist dir t ok f s) =
     (if TARGET_SAVE_INTERVAL \<le> t - last_save_time s
      then (imwrites s @ [\<lparr> filename = path_join dir (frame_name (frame_index s)),
                             idx = frame_index s, image = f, stamp = t, written = ok \<rparr>],
            frame_index s + 1, t)
      else cadence s)"
  by (simp add: persist_def cadence_def)

lemma spaced_persist:
  assumes "spaced (cadence x)"
  shows "spaced (cadence (persist dir t ok f x))"
proof (cases "imwrites x = []")
  case True
  then show ?thesis using assms by (simp add: persist_def spaced_def cadence_def)
next
  case False
  then have "last (map stamp (imwrites x)) = stamp (last (imwrites x))" by (simp add: last_map)
  then show ?thesis
    using False assms by (simp add: persist_def spaced_def cadence_def successively_append_iff)
qed

lemma spaced_run: "spaced (cadence (state_of (run dir st es t init)))"
  by (rule run_cadence_invariant) (simp_all add: spaced_persist, simp add: spaced_def cadence_def init_def)

text \<open>
  Claim C3. A pass that retrieved a frame persists it exactly when the clock reading minus
  \<^verbatim>\<open>last_save_time\<close> is at least \<open>TARGET_SAVE_INTERVAL\<close>: then \<^verbatim>\<open>last_save_time\<close> becomes the
  clock reading, \<^verbatim>\<open>frame_index\<close> grows by one and one save attempt is appended; otherwise all
  three are unchanged. In every run from the initial state, the clock readings of consecutive
  save attempts are at least \<open>TARGET_SAVE_INTERVAL\<close> apart. (Clock readings are real numbers.)
\<close>

theorem cadence_sampler:
  "(\<not> window_closed e \<and> \<not> stop_event s \<and> is_grabbing e \<and> outcome e = Grabbed f \<longrightarrow>
      (\<exists>s'. loop_iter dir e s = Continue s' \<and>
         (if TARGET_SAVE_INTERVAL \<le> now e - last_save_time s
          then last_save_time s' = now e \<and> frame_index s' = frame_index s + 1 \<and>
               imwrites s' = imwrites s @
                 [\<lparr> filename = path_join dir (frame_name (frame_index s)), idx = frame_index s,
                    image = f, stamp = now e, written = write_ok e \<rparr>]
          else last_save_time s' = last_save_time s \<and> frame_index s' = frame_index s \<and>
               imwrites s' = imwrites s)))
   \<and> successively (\<lambda>a b. TARGET_SAVE_INTERVAL \<le> b - a)
        (map stamp (imwrites (state_of (run dir st es t init))))"
proof -
  have a: "\<exists>s'. loop_iter dir e s = Continue s' \<and>
         (if TARGET_SAVE_INTERVAL \<le> now e - last_save_time s
          then last_save_time s' = now e \<and> frame_index s' = frame_index s + 1 \<and>
               imwrites s' = imwrites s @
                 [\<lparr> filename = path_join dir (frame_name (frame_index s)), idx = frame_index s,
                    image = f, stamp = now e, written = write_ok e \<rparr>]
          else last_save_time s' = last_save_time s \<and> frame_index s' = frame_index s \<and>
               imwrites s' = imwrites s)"
    if "\<not> window_closed e" "\<not> stop_event s" "is_grabbing e" "outcome e = Grabbed f"
    using that by (simp add: loop_iter_grabbed persist_def)
  have b: "successively (\<lambda>a b. TARGET_SAVE_INTERVAL \<le> b - a)
        (map stamp (imwrites (state_of (run dir st es t init))))"
    using spaced_run [of dir st es t] by (simp add: spaced_def cadence_def)
  from a b show ?thesis by blast
qed

text \<open>Unfolding the zero padding one character at a time, for the examples.\<close>

lemma pad_unfold: "replicate (numeral n) c = c # replicate (numeral n - 1) c"
  by (simp add: numeral_eq_Suc)

lemmas frame_name_eval = frame_name_def fmt_06d_def dec.simps digit_char_def pad_unfold

lemma frame_name_0: "frame_name 0 = ''frame_000000.jpg''"
  by (simp add: frame_name_eval)

lemma frame_name_1: "frame_name (Suc 0) = ''frame_000001.jpg''"
  by (simp add: frame_name_eval)

lemma frame_name_1234567: "frame_name 1234567 = ''frame_1234567.jpg''"
  by (simp add: frame_name_eval)

theorem cadence_sampler_witness:
  "(\<not> window_closed (pass (Grabbed [[7]]) 100 True) \<and> \<not> stop_event init
      \<and> is_grabbing (pass (Grabbed [[7]]) 100 True)
      \<and> outcome (pass (Grabbed [[7]]) 100 True) = Grabbed [[7]])
   \<and> TARGET_SAVE_INTERVAL \<le> now (pass (Grabbed [[7]]) 100 True) - last_save_time init
   \<and> (\<exists>s'. loop_iter ''d'' (pass (Grabbed [[7]]) 100 True) init = Continue s'
         \<and> last_save_time s' = 100 \<and> frame_index s' = 1
         \<and> map filename (imwrites s') = [''d/frame_000000.jpg''])"
proof -
  let ?e = "pass (Grabbed [[7]]) 100 True"
  have h: "\<not> window_closed ?e \<and> \<not> stop_event init \<and> is_grabbing ?e \<and> outcome ?e = Grabbed [[7]]"
    by (simp add: pass_def init_def)
  have c: "TARGET_SAVE_INTERVAL \<le> now ?e - last_save_time init"
    by (simp add: pass_def init_def TARGET_SAVE_INTERVAL_def SAVE_RATE_def)
  have n: "path_join ''d'' (frame_name 0) = ''d/frame_000000.jpg''"
    by (simp add: frame_name_0 path_join_def)
  have i: "frame_index init = 0" "imwrites init = []" by (simp_all add: init_def)
  have t: "now ?e = 100" by (simp add: pass_def)
  note cs = cadence_sampler [where e = ?e and s = init and f = "[[7]]" and dir = "''d''"
      and st = NoDevices and es = "[]" and t = quiet, THEN conjunct1, THEN mp, OF h]
  from cs obtain s' where s': "loop_iter ''d'' ?e init = Continue s'"
    and r: "if TARGET_SAVE_INTERVAL \<le> now ?e - last_save_time init
          then last_save_time s' = now ?e \<and> frame_index s' = frame_index init + 1 \<and>
               imwrites s' = imwrites init @
                 [\<lparr> filename = path_join ''d'' (frame_name (frame_index init)), idx = frame_index init,
                    image = [[7]], stamp = now ?e, written = write_ok ?e \<rparr>]
          else last_save_time s' = last_save_time init \<and> frame_index s' = frame_index init \<and>
               imwrites s' = imwrites init"
    by (elim exE conjE) (rule that)
  from r have r': "last_save_time s' = now ?e \<and> frame_index s' = frame_index init + 1 \<and>
               imwrites s' = imwrites init @
                 [\<lparr> filename = path_join ''d'' (frame_name (frame_index init)), idx = frame_index init,
                    image = [[7]], stamp = now ?e, written = write_ok ?e \<rparr>]"
    by (simp only: c if_True)
  have res: "last_save_time s' = 100 \<and> frame_index s' = 1
         \<and> map filename (imwrites s') = [''d/frame_000000.jpg'']"
    using r' by (simp add: i t n)
  have ex: "\<exists>s'. loop_iter ''d'' ?e init = Continue s'
         \<and> last_save_time s' = 100 \<and> frame_index s' = 1
         \<and> map filename (imwrites s') = [''d/frame_000000.jpg'']"
    by (rule exI [of _ s'], rule conjI [OF s' res])
  show ?thesis by (rule conjI [OF h conjI [OF c ex]])
qed

subsection \<open>File indices\<close>

lemma indexed_persist: "indexed dir (cadence x) \<Longrightarrow> indexed dir (cadence (persist dir t ok f x))"
  by (simp add: persist_def indexed_def cadence_def)

lemma indexed_run: "indexed dir (cadence (state_of (run dir st es t init)))"
  by (rule run_cadence_invariant) (simp_all add: indexed_persist, simp add: indexed_def cadence_def init_def)

lemma digit_val_digit_char: "d < 10 \<Longrightarrow> digit_val (digit_char d) = d"
proof -
  assume "d < 10"
  then have "d \<in> {0, 1, 2, 3, 4, 5, 6, 7, 8, 9}" by auto
  then show ?thesis by (auto simp add: digit_val_def digit_char_def)
qed

lemma val_snoc: "val (cs @ [c]) = 10 * val cs + digit_val c"
  by (simp add: val_def)

lemma val_dec: "val (dec n) = n"
proof (induction n rule: dec.induct)
  case (1 n)
  show ?case
  proof (cases "n < 10")
    case True
    then show ?thesis by (subst dec.simps) (simp add: val_def digit_val_digit_char)
  next
    case False
    with 1 have "val (dec (n div 10)) = n div 10" by simp
    then show ?thesis using False
      by (subst dec.simps) (simp add: val_snoc digit_val_digit_char)
  qed
qed

lemma val_zero_Cons: "val (CHR ''0'' # cs) = val cs"
  by (simp add: val_def digit_val_def)

lemma val_zeros: "val (replicate k (CHR ''0'') @ cs) = val cs"
  by (induction k) (simp_all add: val_zero_Cons)

lemma val_fmt_06d: "val (fmt_06d n) = n"
  by (simp add: fmt_06d_def val_zeros val_dec)

lemma inj_frame_name: "frame_name i = frame_name j \<Longrightarrow> i = j"
proof -
  assume "frame_name i = frame_name j"
  then have "fmt_06d i = fmt_06d j" by (simp add: frame_name_def)
  then have "val (fmt_06d i) = val (fmt_06d j)" by simp
  then show ?thesis by (simp add: val_fmt_06d)
qed

lemma path_join_frame_name: 
  "path_join dir (frame_name i) = (if dir = [] \<or> last dir = CHR ''/'' then dir else dir @ ''/'') @ frame_name i"
  by (simp add: path_join_def frame_name_def)

lemma inj_path: "path_join dir (frame_name i) = path_join dir (frame_name j) \<Longrightarrow> i = j"
  by (rule inj_frame_name) (simp add: path_join_frame_name)

lemma length_dec: "n < 10 ^ k \<Longrightarrow> 0 < k \<Longrightarrow> length (dec n) \<le> k"
proof (induction n arbitrary: k rule: dec.induct)
  case (1 n)
  show ?case
  proof (cases "n < 10")
    case True
    then show ?thesis using "1.prems" by (subst dec.simps) simp
  next
    case False
    obtain k' where k: "k = Suc k'" using "1.prems" by (cases k) auto
    with "1.prems" False have k': "0 < k'" by (cases k') auto
    from "1.prems" k have "n div 10 < 10 ^ k'" by (simp add: less_mult_imp_div_less mult.commute)
    from "1.IH" [OF False this k'] show ?thesis using False k
      by (subst dec.simps) simp
  qed
qed

lemma length_fmt_06d: "n < 1000000 \<Longrightarrow> length (fmt_06d n) = 6"
proof -
  assume "n < 1000000"
  then have "length (dec n) \<le> 6" using length_dec [of n 6] by simp
  then show ?thesis by (simp add: fmt_06d_def)
qed

lemmas run_eval =
  run_def try_body_def loop_iter_def gui_events_def update_ui_def on_close_def offer_def
  put_nowait_def persist_def finally_block_def init_def pass_def quiet_def maxsize_def
  TARGET_SAVE_INTERVAL_def SAVE_RATE_def path_join_def stopped_line_def Let_def

lemma run_two_frames:
  "run ''d'' (Started ''cam'') two_frames quiet init =
     Running \<lparr> daemon = True, q = [[[7]], [[8]]], stop_event = False, cam = Some (InstantCamera True),
       err = None, frame_index = 2, last_save_time = 101,
       calls = [Open, StartGrabbing, RetrieveResult, Release, RetrieveResult, Release],
       imwrites = [\<lparr> filename = ''d/frame_000000.jpg'', idx = 0, image = [[7]], stamp = 100, written = True \<rparr>,
                   \<lparr> filename = ''d/frame_000001.jpg'', idx = 1, image = [[8]], stamp = 101, written = True \<rparr>],
       stdout = [''[camera] Connected: cam''] \<rparr>"
  by (simp add: two_frames_def run_eval frame_name_0 frame_name_1)

text \<open>
  Claim C6. In every run from the initial state the indices of the save attempts, in the
  order the attempts were made, are \<open>0, 1, \<dots>, frame_index - 1\<close>: strictly increasing, from 0,
  none repeated. The attempt with index \<open>i\<close> goes to the file \<^verbatim>\<open>frame_\<close>, then \<open>i\<close> in decimal
  padded with zeros to six digits (exactly six while \<open>i < 1000000\<close>), then \<^verbatim>\<open>.jpg\<close>, in the
  images folder; the padded digits read back as \<open>i\<close>, and no two attempts share a file name.
\<close>

theorem file_indices:
  "map idx (imwrites (state_of (run dir st es t init)))
      = [0..<frame_index (state_of (run dir st es t init))]
   \<and> sorted_wrt (<) (map idx (imwrites (state_of (run dir st es t init))))
   \<and> map filename (imwrites (state_of (run dir st es t init)))
      = map (\<lambda>i. path_join dir (frame_name i)) [0..<frame_index (state_of (run dir st es t init))]
   \<and> distinct (map filename (imwrites (state_of (run dir st es t init))))
   \<and> frame_name i = ''frame_'' @ fmt_06d i @ ''.jpg''
   \<and> val (fmt_06d i) = i
   \<and> (i < 1000000 \<longrightarrow> length (fmt_06d i) = 6)"
proof -
  let ?s = "state_of (run dir st es t init)"
  have a: "map idx (imwrites ?s) = [0..<frame_index ?s]"
    and c: "map filename (imwrites ?s) = map (\<lambda>i. path_join dir (frame_name i)) [0..<frame_index ?s]"
    using indexed_run [of dir st es t] by (simp_all add: indexed_def cadence_def)
  have b: "sorted_wrt (<) (map idx (imwrites ?s))"
    by (simp only: a) simp
  have "inj_on (\<lambda>i. path_join dir (frame_name i)) (set [0..<frame_index ?s])"
    by (rule inj_onI) (rule inj_path)
  then have d: "distinct (map filename (imwrites ?s))"
    by (simp only: c distinct_map distinct_upt) 
  have e: "frame_name i = ''frame_'' @ fmt_06d i @ ''.jpg''"
    by (simp add: frame_name_def)
  from a b c d e val_fmt_06d [of i] length_fmt_06d [of i] show ?thesis by blast
qed

theorem file_indices_witness:
  "(0::nat) < 1000000 \<and> length (fmt_06d 0) = 6
   \<and> map filename (imwrites (state_of (run ''d'' (Started ''cam'') two_frames quiet init)))
       = [''d/frame_000000.jpg'', ''d/frame_000001.jpg'']
   \<and> map idx (imwrites (state_of (run ''d'' (Started ''cam'') two_frames quiet init))) = [0, 1]"
proof -
  note fi = file_indices [of "''d''" "Started ''cam''" two_frames quiet 0]
  have n: "frame_index (state_of (run ''d'' (Started ''cam'') two_frames quiet init)) = 2"
    by (simp add: run_two_frames)
  have u: "[0..<2] = [0, 1]" by (simp add: upt_rec)
  have p: "path_join ''d'' (frame_name 0) = ''d/frame_000000.jpg''"
      "path_join ''d'' (frame_name (Suc 0)) = ''d/frame_000001.jpg''"
    by (simp_all add: path_join_def frame_name_0 frame_name_1)
  from fi show ?thesis by (simp add: n u p)
qed

subsection \<open>The saved-frame count and the files written\<close>

lemma run_first_write_fails:
  "run ''d'' (Started ''cam'') first_write_fails quiet init =
     Running \<lparr> daemon = True, q = [[[7]], [[8]]], stop_event = False, cam = Some (InstantCamera True),
       err = None, frame_index = 2, last_save_time = 101,
       calls = [Open, StartGrabbing, RetrieveResult, Release, RetrieveResult, Release],
       imwrites = [\<lparr> filename = ''d/frame_000000.jpg'', idx = 0, image = [[7]], stamp = 100, written = False \<rparr>,
                   \<lparr> filename = ''d/frame_000001.jpg'', idx = 1, image = [[8]], stamp = 101, written = True \<rparr>],
       stdout = [''[camera] Connected: cam''] \<rparr>"
  by (simp add: first_write_fails_def run_eval frame_name_0 frame_name_1)

lemma frame_index_run:
  "frame_index (state_of (run dir st es t init)) = length (imwrites (state_of (run dir st es t init)))"
proof -
  let ?s = "state_of (run dir st es t init)"
  have "map idx (imwrites ?s) = [0..<frame_index ?s]"
    using indexed_run [of dir st es t] by (simp add: indexed_def cadence_def)
  then have "length (map idx (imwrites ?s)) = length [0..<frame_index ?s]" by (rule arg_cong)
  then show ?thesis by simp
qed

text \<open>
  Claim C10. Whenever the cadence test holds, \<^verbatim>\<open>frame_index\<close> grows by one, \<^verbatim>\<open>last_save_time\<close>
  becomes the clock reading and one save attempt is appended, whether \<^verbatim>\<open>cv2.imwrite\<close> returned
  \<^verbatim>\<open>True\<close> or \<^verbatim>\<open>False\<close>; so it is for a pass of the loop that retrieved a frame. Whatever
  \<^verbatim>\<open>cv2.imwrite\<close> returns, a save attempt moves \<^verbatim>\<open>frame_index\<close> and \<^verbatim>\<open>last_save_time\<close> in the
  same way. In every run from the initial state \<^verbatim>\<open>frame_index\<close>, which is the count the window
  reports, is the number of save attempts, hence at least the number of files written; in the
  run \<open>first_write_fails\<close> it is 2 while one file was written.
\<close>

theorem saved_count_is_attempts:
  "(TARGET_SAVE_INTERVAL \<le> clock - last_save_time s \<longrightarrow>
      (\<forall>ok. frame_index (persist dir clock ok f s) = frame_index s + 1
         \<and> last_save_time (persist dir clock ok f s) = clock
         \<and> imwrites (persist dir clock ok f s) = imwrites s @
               [\<lparr> filename = path_join dir (frame_name (frame_index s)), idx = frame_index s,
                  image = f, stamp = clock, written = ok \<rparr>]))
   \<and> (\<not> window_closed e \<and> \<not> stop_event s \<and> is_grabbing e \<and> outcome e = Grabbed f
        \<and> TARGET_SAVE_INTERVAL \<le> now e - last_save_time s \<longrightarrow>
      frame_index (step_state (loop_iter dir e s)) = frame_index s + 1
      \<and> last_save_time (step_state (loop_iter dir e s)) = now e
      \<and> map written (imwrites (step_state (loop_iter dir e s)))
           = map written (imwrites s) @ [write_ok e])
   \<and> (err s = None \<longrightarrow> snd (fst (update_ui s)) = Streaming (frame_index s))
   \<and> frame_index (persist dir clock ok f s) = frame_index (persist dir clock (\<not> ok) f s)
   \<and> last_save_time (persist dir clock ok f s) = last_save_time (persist dir clock (\<not> ok) f s)
   \<and> length (imwrites (persist dir clock ok f s)) = length (imwrites (persist dir clock (\<not> ok) f s))
   \<and> frame_index (state_of (run dir st es t init))
       = length (imwrites (state_of (run dir st es t init)))
   \<and> length (filter written (imwrites (state_of (run dir st es t init))))
       \<le> frame_index (state_of (run dir st es t init))
   \<and> frame_index (state_of (run ''d'' (Started ''cam'') first_write_fails quiet init)) = 2
   \<and> length (filter written
         (imwrites (state_of (run ''d'' (Started ''cam'') first_write_fails quiet init)))) = 1"
proof -
  have a: "frame_index (persist dir clock ok f s) = frame_index (persist dir clock (\<not> ok) f s)"
    "last_save_time (persist dir clock ok f s) = last_save_time (persist dir clock (\<not> ok) f s)"
    "length (imwrites (persist dir clock ok f s)) = length (imwrites (persist dir clock (\<not> ok) f s))"
    by (simp_all add: persist_def)
  have b: "length (filter written (imwrites (state_of (run dir st es t init))))
       \<le> frame_index (state_of (run dir st es t init))"
    by (simp only: frame_index_run length_filter_le)
  have c: "frame_index (state_of (run ''d'' (Started ''cam'') first_write_fails quiet init)) = 2"
    "length (filter written
         (imwrites (state_of (run ''d'' (Started ''cam'') first_write_fails quiet init)))) = 1"
    by (simp_all add: run_first_write_fails)
  have d: "TARGET_SAVE_INTERVAL \<le> clock - last_save_time s \<longrightarrow>
      (\<forall>ok. frame_index (persist dir clock ok f s) = frame_index s + 1
         \<and> last_save_time (persist dir clock ok f s) = clock
         \<and> imwrites (persist dir clock ok f s) = imwrites s @
               [\<lparr> filename = path_join dir (frame_name (frame_index s)), idx = frame_index s,
                  image = f, stamp = clock, written = ok \<rparr>])"
    by (simp add: persist_def)
  have e: "\<not> window_closed e \<and> \<not> stop_event s \<and> is_grabbing e \<and> outcome e = Grabbed f
        \<and> TARGET_SAVE_INTERVAL \<le> now e - last_save_time s \<longrightarrow>
      frame_index (step_state (loop_iter dir e s)) = frame_index s + 1
      \<and> last_save_time (step_state (loop_iter dir e s)) = now e
      \<and> map written (imwrites (step_state (loop_iter dir e s)))
           = map written (imwrites s) @ [write_ok e]"
    by (simp add: loop_iter_grabbed persist_def)
  have u: "err s = None \<longrightarrow> snd (fst (update_ui s)) = Streaming (frame_index s)"
    by (simp add: update_ui_def)
  note fr = frame_index_run [of dir st es t]
  show ?thesis
    by (rule conjI [OF d conjI [OF e conjI [OF u conjI [OF a(1) conjI [OF a(2) conjI [OF a(3)
          conjI [OF fr conjI [OF b conjI [OF c(1) c(2)]]]]]]]]])
qed

theorem saved_count_is_attempts_witness:
  "TARGET_SAVE_INTERVAL \<le> 100 - last_save_time init
   \<and> frame_index (persist ''d'' 100 False [[7]] init) = 1
   \<and> last_save_time (persist ''d'' 100 False [[7]] init) = 100
   \<and> map written (imwrites (persist ''d'' 100 False [[7]] init)) = [False]
   \<and> frame_index (state_of (run ''d'' (Started ''cam'') first_write_fails quiet init))
     = length (imwrites (state_of (run ''d'' (Started ''cam'') first_write_fails quiet init)))
   \<and> frame_index (state_of (run ''d'' (Started ''cam'') first_write_fails quiet init)) = 2
   \<and> length (filter written
         (imwrites (state_of (run ''d'' (Started ''cam'') first_write_fails quiet init)))) = 1"
proof -
  note sc = saved_count_is_attempts [of 100 init "''d''" "[[7]]" "pass (Grabbed [[7]]) 100 False" True
      "Started ''cam''" first_write_fails quiet]
  have h: "TARGET_SAVE_INTERVAL \<le> 100 - last_save_time init"
    by (simp add: init_def TARGET_SAVE_INTERVAL_def SAVE_RATE_def)
  note p = sc [THEN conjunct1, THEN mp, OF h, THEN spec, of False]
  have p1: "frame_index (persist ''d'' 100 False [[7]] init) = 1"
    using p by (simp add: init_def)
  have p2: "last_save_time (persist ''d'' 100 False [[7]] init) = 100"
    using p by simp
  have p3: "map written (imwrites (persist ''d'' 100 False [[7]] init)) = [False]"
    using p by (simp add: init_def)
  note r = sc [THEN conjunct2, THEN conjunct2, THEN conjunct2, THEN conjunct2, THEN conjunct2,
      THEN conjunct2]
  note r1 = r [THEN conjunct1]
  note r3 = r [THEN conjunct2, THEN conjunct2]
  show ?thesis
    by (rule conjI [OF h conjI [OF p1 conjI [OF p2 conjI [OF p3 conjI [OF r1 r3]]]]])
qed

subsection \<open>The thread while it is inside the loop\<close>

lemma run_loop_still_invariant:
  assumes "P s" and "\<And>e s s'. P s \<Longrightarrow> loop_iter dir e s = Continue s' \<Longrightarrow> P s'"
    and "run_loop dir es s = StillRunning s1"
  shows "P s1"
  using assms(1,3)
proof (induction es arbitrary: s)
  case Nil
  then show ?case by simp
next
  case (Cons e es)
  show ?case
  proof (cases "loop_iter dir e s")
    case (Continue s')
    from assms(2) [OF Cons.prems(1) Continue] have "P s'" .
    moreover from Cons.prems(2) Continue have "run_loop dir es s' = StillRunning s1" by simp
    ultimately show ?thesis by (rule Cons.IH)
  next
    case (Break s')
    with Cons.prems(2) show ?thesis by simp
  next
    case (Raise m s')
    with Cons.prems(2) show ?thesis by simp
  qed
qed

lemma loop_iter_Continue:
  assumes "loop_iter dir e s = Continue s'"
  shows "\<not> stop_event s' \<and> \<not> stop_event s \<and> \<not> window_closed e \<and> is_grabbing e
     \<and> err s' = err s \<and> cam s' = cam s \<and> stdout s' = stdout s
     \<and> (calls s' = calls s @ [RetrieveResult, Release])"
proof (rule loop_iter_cases [of e s])
  assume "window_closed e \<or> stop_event s \<or> \<not> is_grabbing e"
  with assms show ?thesis by (simp add: loop_iter_break)
next
  fix m assume "\<not> window_closed e" "\<not> stop_event s" "is_grabbing e" "outcome e = TimeoutException m"
  with assms show ?thesis by (simp add: loop_iter_timeout)
next
  fix m assume "\<not> window_closed e" "\<not> stop_event s" "is_grabbing e" "outcome e = OtherException m"
  with assms show ?thesis by (simp add: loop_iter_other)
next
  assume h: "\<not> window_closed e" "\<not> stop_event s" "is_grabbing e" "outcome e = GrabFailed"
  from assms have "s' = (gui_events e s)\<lparr>calls := calls s @ [RetrieveResult, Release]\<rparr>"
    using h by (simp add: loop_iter_grab_failed)
  with h show ?thesis by simp
next
  fix f assume h: "\<not> window_closed e" "\<not> stop_event s" "is_grabbing e" "outcome e = Grabbed f"
  from assms have "s' = (persist dir (now e) (write_ok e) f
                 (offer f ((gui_events e s)\<lparr>calls := calls s @ [RetrieveResult]\<rparr>)))
               \<lparr>calls := calls s @ [RetrieveResult, Release]\<rparr>"
    using h by (simp add: loop_iter_grabbed)
  with h show ?thesis by simp
qed

lemma try_body_Started:
  "try_body dir (Started nm) es s =
     run_loop dir es (s\<lparr>cam := Some (InstantCamera True), calls := calls s @ [Open, StartGrabbing],
               stdout := stdout s @ [''[camera] Connected: '' @ nm]\<rparr>)"
  by (simp add: try_body_def)

lemma in_loop_Continue: "in_loop nm s \<Longrightarrow> loop_iter dir e s = Continue s' \<Longrightarrow> in_loop nm s'"
  using loop_iter_Continue [of dir e s s'] by (simp add: in_loop_def)

lemma in_loop_still_running:
  assumes "try_body dir (Started nm) pre init = StillRunning s1"
  shows "in_loop nm s1"
proof (rule run_loop_still_invariant [where P = "in_loop nm"])
  show "in_loop nm (init\<lparr>cam := Some (InstantCamera True), calls := calls init @ [Open, StartGrabbing],
               stdout := stdout init @ [''[camera] Connected: '' @ nm]\<rparr>)"
    by (simp add: in_loop_def init_def)
  show "run_loop dir pre (init\<lparr>cam := Some (InstantCamera True), calls := calls init @ [Open, StartGrabbing],
               stdout := stdout init @ [''[camera] Connected: '' @ nm]\<rparr>) = StillRunning s1"
    using assms by (simp add: try_body_Started)
  show "\<And>e s s'. in_loop nm s \<Longrightarrow> loop_iter dir e s = Continue s' \<Longrightarrow> in_loop nm s'"
    by (rule in_loop_Continue)
qed

lemma try_body_append:
  assumes "try_body dir (Started nm) pre s = StillRunning s1"
  shows "try_body dir (Started nm) (pre @ es) s = run_loop dir es s1"
  using assms by (simp add: try_body_Started run_loop_append)

lemma ui_polls_fields [simp]:
  "err (ui_polls n s) = err s"
  "frame_index (ui_polls n s) = frame_index s"
  "cam (ui_polls n s) = cam s"
  "calls (ui_polls n s) = calls s"
  "imwrites (ui_polls n s) = imwrites s"
  by (induction n arbitrary: s) (simp_all add: update_ui_def)

lemma info_update_ui:
  "err s = Some m \<Longrightarrow> m \<noteq> [] \<Longrightarrow> snd (fst (update_ui s)) = ErrorText m"
  by (simp add: update_ui_def)

subsection \<open>Start-up without a camera\<close>

text \<open>
  Claim C5, as the code has it. When \<^verbatim>\<open>EnumerateDevices()\<close> returns no device, nothing is
  raised: the \<^verbatim>\<open>try\<close> body records the message \<^verbatim>\<open>No Basler camera found\<close> in \<^verbatim>\<open>self.err\<close> and
  returns. The thread ends through the \<^verbatim>\<open>finally\<close> block, no SDK call is made, no frame is
  saved, and after any number of UI ticks the error is still that non-empty string, the text
  shown is the error text, and \<^verbatim>\<open>frame_index\<close> is 0.
\<close>

theorem no_device_found:
  "try_body dir NoDevices es init = Exited (init\<lparr>err := Some ''No Basler camera found''\<rparr>)
   \<and> (\<forall>m x. try_body dir NoDevices es init \<noteq> Raised m x)
   \<and> run dir NoDevices es t init
     = Terminated (init\<lparr>err := Some ''No Basler camera found'', stdout := [stopped_line]\<rparr>)
   \<and> calls (state_of (run dir NoDevices es t init)) = []
   \<and> imwrites (state_of (run dir NoDevices es t init)) = []
   \<and> err (ui_polls n (state_of (run dir NoDevices es t init))) = Some ''No Basler camera found''
   \<and> ''No Basler camera found'' \<noteq> ''''
   \<and> frame_index (ui_polls n (state_of (run dir NoDevices es t init))) = 0
   \<and> snd (fst (update_ui (ui_polls n (state_of (run dir NoDevices es t init)))))
        = ErrorText ''No Basler camera found''"
proof -
  have r: "run dir NoDevices es t init
     = Terminated (init\<lparr>err := Some ''No Basler camera found'', stdout := [stopped_line]\<rparr>)"
    by (simp add: run_def try_body_def finally_block_def init_def)
  have e: "err (ui_polls n (state_of (run dir NoDevices es t init))) = Some ''No Basler camera found''"
    by (simp add: r)
  have i: "snd (fst (update_ui (ui_polls n (state_of (run dir NoDevices es t init)))))
        = ErrorText ''No Basler camera found''"
    by (rule info_update_ui [OF e]) simp
  have f: "frame_index (ui_polls n (state_of (run dir NoDevices es t init))) = 0"
    "calls (state_of (run dir NoDevices es t init)) = []"
    "imwrites (state_of (run dir NoDevices es t init)) = []"
    by (simp_all add: r) (simp_all add: init_def)
  have b: "try_body dir NoDevices es init = Exited (init\<lparr>err := Some ''No Basler camera found''\<rparr>)"
    by (simp add: try_body_def)
  then have nr: "\<forall>m x. try_body dir NoDevices es init \<noteq> Raised m x" by simp
  from b nr r e i f show ?thesis by simp
qed

text \<open>
  The claim as stated fails in its first clause: with no device the \<^verbatim>\<open>try\<close> body returns, it
  does not raise, and the thread ends without a call to the SDK.
\<close>

theorem no_device_raises_nothing:
  "try_body ''d'' NoDevices [] init = Exited (init\<lparr>err := Some ''No Basler camera found''\<rparr>)
   \<and> is_Terminated (run ''d'' NoDevices [] quiet init)
   \<and> calls (state_of (run ''d'' NoDevices [] quiet init)) = []"
  by (simp add: try_body_def run_def finally_block_def init_def)

theorem no_device_found_witness:
  "try_body ''d'' NoDevices two_frames init = Exited (init\<lparr>err := Some ''No Basler camera found''\<rparr>)
   \<and> run ''d'' NoDevices two_frames quiet init
     = Terminated (init\<lparr>err := Some ''No Basler camera found'', stdout := [stopped_line]\<rparr>)
   \<and> err (ui_polls 3 (state_of (run ''d'' NoDevices two_frames quiet init)))
        = Some ''No Basler camera found''
   \<and> frame_index (ui_polls 3 (state_of (run ''d'' NoDevices two_frames quiet init))) = 0
   \<and> snd (fst (update_ui (ui_polls 3 (state_of (run ''d'' NoDevices two_frames quiet init)))))
        = ErrorText ''No Basler camera found''"
  using no_device_found [of "''d''" two_frames quiet 3]
  by (elim conjE) (intro conjI, assumption+)

subsection \<open>The first frame\<close>

lemma grab_failed_prefix:
  assumes "\<forall>e\<in>set pre. \<not> window_closed e \<and> is_grabbing e \<and> outcome e = GrabFailed"
    and "\<not> stop_event s"
  shows "\<exists>s1. run_loop dir pre s = StillRunning s1 \<and> cadence s1 = cadence s \<and> \<not> stop_event s1"
  using assms
proof (induction pre arbitrary: s)
  case Nil
  then show ?case by simp
next
  case (Cons e pre)
  let ?s' = "(gui_events e s)\<lparr>calls := calls s @ [RetrieveResult, Release]\<rparr>"
  from Cons.prems have st: "loop_iter dir e s = Continue ?s'"
    by (simp add: loop_iter_grab_failed)
  from Cons.prems have "\<not> stop_event ?s'" by simp
  with Cons.prems(1) obtain s1 where
    "run_loop dir pre ?s' = StillRunning s1" "cadence s1 = cadence ?s'" "\<not> stop_event s1"
    using Cons.IH [of ?s'] by auto
  moreover have "cadence ?s' = cadence s" by (simp add: cadence_def)
  ultimately show ?case using st by simp
qed

text \<open>
  Claim C9. \<^verbatim>\<open>last_save_time\<close> starts at 0, so the first frame retrieved in a session (after
  any number of passes whose grab did not succeed) meets the cadence test as soon as the
  clock reading is at least \<open>TARGET_SAVE_INTERVAL\<close>, which every reading of \<^verbatim>\<open>time.time()\<close>,
  seconds since 1970, is. The frame is saved under index 0 and \<^verbatim>\<open>frame_index\<close> is 1 after
  that pass.
\<close>

theorem first_frame_is_saved:
  assumes "\<forall>e\<in>set pre. \<not> window_closed e \<and> is_grabbing e \<and> outcome e = GrabFailed"
    and "\<not> window_closed e" and "is_grabbing e" and "outcome e = Grabbed f"
    and "TARGET_SAVE_INTERVAL \<le> now e"
  shows "\<exists>s'. run dir (Started nm) (pre @ [e]) t init = Running s'
     \<and> frame_index s' = 1 \<and> last_save_time s' = now e
     \<and> imwrites s' = [\<lparr> filename = path_join dir (frame_name 0), idx = 0, image = f,
                          stamp = now e, written = write_ok e \<rparr>]"
proof -
  let ?s0 = "init\<lparr>cam := Some (InstantCamera True), calls := calls init @ [Open, StartGrabbing],
               stdout := stdout init @ [''[camera] Connected: '' @ nm]\<rparr>"
  have "\<not> stop_event ?s0" by (simp add: init_def)
  from grab_failed_prefix [OF assms(1) this, of dir] obtain s1 where
    s1: "run_loop dir pre ?s0 = StillRunning s1" "cadence s1 = cadence ?s0" "\<not> stop_event s1"
    by blast
  from s1(2) have c: "imwrites s1 = []" "frame_index s1 = 0" "last_save_time s1 = 0"
    by (simp_all add: cadence_def init_def)
  let ?s' = "(persist dir (now e) (write_ok e) f
                 (offer f ((gui_events e s1)\<lparr>calls := calls s1 @ [RetrieveResult]\<rparr>)))
               \<lparr>calls := calls s1 @ [RetrieveResult, Release]\<rparr>"
  have it: "loop_iter dir e s1 = Continue ?s'"
    using assms(2-4) s1(3) by (simp add: loop_iter_grabbed)
  have "try_body dir (Started nm) (pre @ [e]) init = run_loop dir [e] s1"
    using s1(1) by (simp add: try_body_Started run_loop_append)
  then have r: "run dir (Started nm) (pre @ [e]) t init = Running ?s'"
    by (simp add: run_def it)
  have p: "frame_index ?s' = 1 \<and> last_save_time ?s' = now e
     \<and> imwrites ?s' = [\<lparr> filename = path_join dir (frame_name 0), idx = 0, image = f,
                          stamp = now e, written = write_ok e \<rparr>]"
    using assms(5) by (simp add: persist_def c)
  from r p show ?thesis by blast
qed

theorem first_frame_is_saved_witness:
  "(\<not> window_closed (pass GrabFailed 99 True) \<and> is_grabbing (pass GrabFailed 99 True)
      \<and> outcome (pass GrabFailed 99 True) = GrabFailed)
   \<and> (\<not> window_closed (pass (Grabbed [[7]]) 100 True) \<and> is_grabbing (pass (Grabbed [[7]]) 100 True)
      \<and> outcome (pass (Grabbed [[7]]) 100 True) = Grabbed [[7]])
   \<and> TARGET_SAVE_INTERVAL \<le> now (pass (Grabbed [[7]]) 100 True)
   \<and> (\<exists>s'. run ''d'' (Started ''cam'') ([pass GrabFailed 99 True] @ [pass (Grabbed [[7]]) 100 True])
              quiet init = Running s'
         \<and> frame_index s' = 1 \<and> last_save_time s' = 100
         \<and> map filename (imwrites s') = [''d/frame_000000.jpg''])"
proof -
  let ?e = "pass (Grabbed [[7]]) 100 True"
  have h1: "\<forall>e\<in>set [pass GrabFailed 99 True]. \<not> window_closed e \<and> is_grabbing e \<and> outcome e = GrabFailed"
    by (simp add: pass_def)
  have h2: "\<not> window_closed ?e" "is_grabbing ?e" "outcome ?e = Grabbed [[7]]"
    by (simp_all add: pass_def)
  have h3: "TARGET_SAVE_INTERVAL \<le> now ?e"
    by (simp add: pass_def TARGET_SAVE_INTERVAL_def SAVE_RATE_def)
  from first_frame_is_saved [OF h1 h2 h3, of "''d''" "''cam''" quiet]
  obtain s' where r: "run ''d'' (Started ''cam'') ([pass GrabFailed 99 True] @ [?e]) quiet init = Running s'"
    and p: "frame_index s' = 1" "last_save_time s' = now ?e"
      "imwrites s' = [\<lparr> filename = path_join ''d'' (frame_name 0), idx = 0, image = [[7]],
                          stamp = now ?e, written = write_ok ?e \<rparr>]"
    by (elim exE conjE) (rule that)
  have "last_save_time s' = 100" using p(2) by (simp add: pass_def)
  moreover have "map filename (imwrites s') = [''d/frame_000000.jpg'']"
    by (simp add: p(3) path_join_def frame_name_0)
  ultimately have D: "\<exists>s'. run ''d'' (Started ''cam'') ([pass GrabFailed 99 True] @ [?e]) quiet init = Running s'
         \<and> frame_index s' = 1 \<and> last_save_time s' = 100
         \<and> map filename (imwrites s') = [''d/frame_000000.jpg'']"
    using r p(1) by (intro exI [of _ s'] conjI)
  have A: "\<not> window_closed (pass GrabFailed 99 True) \<and> is_grabbing (pass GrabFailed 99 True)
      \<and> outcome (pass GrabFailed 99 True) = GrabFailed"
    by (simp add: pass_def)
  have B: "\<not> window_closed ?e \<and> is_grabbing ?e \<and> outcome ?e = Grabbed [[7]]"
    by (simp add: pass_def)
  show ?thesis by (rule conjI [OF A conjI [OF B conjI [OF h3 D]]])
qed

subsection \<open>Leaving the loop\<close>

lemma finally_block_in_loop:
  assumes "in_loop nm s"
  shows "calls (finally_block t s) = calls s @ teardown_calls t"
    and "stdout (finally_block t s) = [''[camera] Connected: '' @ nm, stopped_line]"
    and "cam (finally_block t s) =
           Some (InstantCamera (stop_grabbing_raises t \<or> close_raises t))"
  using assms by (simp_all add: in_loop_def finally_block_def teardown_calls_def Let_def)

lemma run_break:
  assumes "try_body dir (Started nm) pre init = StillRunning s1"
    and "loop_iter dir e s1 = Break s2"
  shows "run dir (Started nm) (pre @ e # post) t init = Terminated (finally_block t s2)"
  using assms by (simp add: run_def try_body_append)

lemma run_raise:
  assumes "try_body dir (Started nm) pre init = StillRunning s1"
    and "loop_iter dir e s1 = Raise m s2"
  shows "run dir (Started nm) (pre @ e # post) t init
           = Terminated (finally_block t (s2\<lparr>err := Some m\<rparr>))"
  using assms by (simp add: run_def try_body_append)

lemma daemon_loop_iter [simp]: "daemon (step_state (loop_iter dir e s)) = daemon s"
  by (rule loop_iter_cases [of e s])
     (simp_all add: loop_iter_break loop_iter_timeout loop_iter_other loop_iter_grab_failed loop_iter_grabbed)

lemma daemon_run_loop [simp]: "daemon (loop_state (run_loop dir es s)) = daemon s"
  by (rule run_loop_invariant [where P = "\<lambda>x. daemon x = daemon s"]) simp_all

lemma daemon_still_running:
  assumes "try_body dir (Started nm) pre init = StillRunning s1"
  shows "daemon s1"
proof -
  have "daemon (loop_state (try_body dir (Started nm) pre init))"
    by (simp add: try_body_Started) (simp add: init_def)
  then show ?thesis by (simp add: assms)
qed

text \<open>
  Claim C8, as the code has it. The stop event is tested at the head of every pass, before the
  retrieval. If the camera window was closed (\<^verbatim>\<open>on_close\<close> sets the event) when the thread,
  inside the loop after the passes \<open>pre\<close>, comes to the test, the loop is left at once,
  whatever the camera would have answered and whatever the script holds after: the thread
  ends with no error recorded, the calls made are those made before followed by the teardown
  calls, so \<^verbatim>\<open>RetrieveResult\<close> is not called again, the saves are as before, and the teardown
  line is printed once. Termination by force is used as well: the thread is a daemon thread,
  so when the process exits while the thread is inside the loop, as it does when the root
  window is closed (\<^verbatim>\<open>motor_controls.on_close\<close> calls \<^verbatim>\<open>sys.exit\<close> and does not set the event),
  the thread is ended where it is, the event never set, no teardown call made, the teardown
  line not printed, the camera open.
\<close>

theorem cooperative_cancellation:
  assumes "try_body dir (Started nm) pre init = StillRunning s1"
    and "window_closed e"
  shows "run dir (Started nm) (pre @ e # post) t init = Terminated (finally_block t (gui_events e s1))
     \<and> stop_event (on_close s1)
     \<and> err (finally_block t (gui_events e s1)) = None
     \<and> calls (finally_block t (gui_events e s1)) = calls s1 @ teardown_calls t
     \<and> count_list (calls (finally_block t (gui_events e s1))) RetrieveResult
         = count_list (calls s1) RetrieveResult
     \<and> cadence (finally_block t (gui_events e s1)) = cadence s1
     \<and> count_list (stdout (finally_block t (gui_events e s1))) stopped_line = 1
     \<and> daemon s1 \<and> \<not> stop_event s1
     \<and> run dir (Started nm) pre t init = Running s1
     \<and> interpreter_exit (run dir (Started nm) pre t init) = Killed s1
     \<and> motor_controls_on_close (run dir (Started nm) pre t init) = Killed s1
     \<and> count_list (calls s1) StopGrabbing = 0 \<and> count_list (calls s1) Close = 0
     \<and> count_list (stdout s1) stopped_line = 0
     \<and> cam s1 = Some (InstantCamera True)"
proof -
  from assms(1) have il: "in_loop nm s1" by (rule in_loop_still_running)
  from assms(1) have d: "daemon s1" by (rule daemon_still_running)
  have ns: "\<not> stop_event s1" using il by (simp add: in_loop_def)
  have rr: "run dir (Started nm) pre t init = Running s1"
    using assms(1) by (simp add: run_def)
  have ie: "interpreter_exit (run dir (Started nm) pre t init) = Killed s1"
    by (simp add: rr interpreter_exit_def d)
  have mc: "motor_controls_on_close (run dir (Started nm) pre t init) = Killed s1"
    by (simp only: motor_controls_on_close_def ie)
  have nt: "count_list (calls s1) StopGrabbing = 0" "count_list (calls s1) Close = 0"
    using il by (simp_all add: in_loop_def count_list_0_iff)
  have nl: "count_list (stdout s1) stopped_line = 0"
    using il by (simp add: in_loop_def stopped_line_def)
  have co: "cam s1 = Some (InstantCamera True)" using il by (simp add: in_loop_def)
  have g: "in_loop nm ((gui_events e s1)\<lparr>stop_event := False\<rparr>)"
    using il by (simp add: in_loop_def)
  have b: "loop_iter dir e s1 = Break (gui_events e s1)"
    using assms(2) by (simp add: loop_iter_break)
  have r: "run dir (Started nm) (pre @ e # post) t init = Terminated (finally_block t (gui_events e s1))"
    using assms(1) b by (rule run_break)
  have e: "err (finally_block t (gui_events e s1)) = None"
    using il by (simp add: in_loop_def)
  have fb: "finally_block t (gui_events e s1)
      = (finally_block t ((gui_events e s1)\<lparr>stop_event := False\<rparr>))\<lparr>stop_event := stop_event (gui_events e s1)\<rparr>"
    by (simp add: finally_block_def Let_def split: option.splits)
  have c: "calls (finally_block t (gui_events e s1)) = calls s1 @ teardown_calls t"
    by (subst fb) (simp add: finally_block_in_loop(1) [OF g])
  have n: "count_list (calls (finally_block t (gui_events e s1))) RetrieveResult
         = count_list (calls s1) RetrieveResult"
    by (simp add: c teardown_calls_def)
  have k: "cadence (finally_block t (gui_events e s1)) = cadence s1"
    by (simp add: cadence_def)
  have o: "count_list (stdout (finally_block t (gui_events e s1))) stopped_line = 1"
    using il by (simp add: in_loop_def stopped_line_def)
  have s: "stop_event (on_close s1)" by (simp add: on_close_def)
  show ?thesis
    by (rule conjI [OF r conjI [OF s conjI [OF e conjI [OF c conjI [OF n conjI [OF k conjI [OF o
          conjI [OF d conjI [OF ns conjI [OF rr conjI [OF ie conjI [OF mc conjI [OF nt(1)
          conjI [OF nt(2) conjI [OF nl co]]]]]]]]]]]]]]])
qed

lemma try_body_two_frames:
  "try_body ''d'' (Started ''cam'') two_frames init = StillRunning after_two_frames"
  by (simp add: two_frames_def after_two_frames_def run_eval frame_name_0 frame_name_1)

theorem cooperative_cancellation_witness:
  "try_body ''d'' (Started ''cam'') two_frames init = StillRunning after_two_frames
   \<and> window_closed closing
   \<and> is_Terminated (run ''d'' (Started ''cam'') (two_frames @ closing # two_frames) quiet init)
   \<and> calls (state_of (run ''d'' (Started ''cam'') (two_frames @ closing # two_frames) quiet init))
       = [Open, StartGrabbing, RetrieveResult, Release, RetrieveResult, Release, StopGrabbing, Close]
   \<and> err (state_of (run ''d'' (Started ''cam'') (two_frames @ closing # two_frames) quiet init)) = None
   \<and> frame_index (state_of (run ''d'' (Started ''cam'') (two_frames @ closing # two_frames) quiet init)) = 2
   \<and> motor_controls_on_close (run ''d'' (Started ''cam'') two_frames quiet init) = Killed after_two_frames"
proof -
  have h: "window_closed closing" by (simp add: closing_def)
  note cc = cooperative_cancellation [OF try_body_two_frames h, of two_frames quiet]
  note cc1 = cc [THEN conjunct1]
  note cc3 = cc [THEN conjunct2, THEN conjunct2, THEN conjunct1]
  note cc4 = cc [THEN conjunct2, THEN conjunct2, THEN conjunct2, THEN conjunct1]
  note mc = cc [THEN conjunct2, THEN conjunct2, THEN conjunct2, THEN conjunct2, THEN conjunct2,
      THEN conjunct2, THEN conjunct2, THEN conjunct2, THEN conjunct2, THEN conjunct2,
      THEN conjunct2, THEN conjunct1]
  have a: "calls after_two_frames @ teardown_calls quiet
      = [Open, StartGrabbing, RetrieveResult, Release, RetrieveResult, Release, StopGrabbing, Close]"
    by (simp add: after_two_frames_def teardown_calls_def quiet_def)
  have b: "frame_index after_two_frames = 2" by (simp add: after_two_frames_def)
  have t: "is_Terminated (run ''d'' (Started ''cam'') (two_frames @ closing # two_frames) quiet init)"
    by (simp add: cc1)
  have c: "calls (state_of (run ''d'' (Started ''cam'') (two_frames @ closing # two_frames) quiet init))
       = [Open, StartGrabbing, RetrieveResult, Release, RetrieveResult, Release, StopGrabbing, Close]"
    using cc4 a by (simp add: cc1)
  have e: "err (state_of (run ''d'' (Started ''cam'') (two_frames @ closing # two_frames) quiet init)) = None"
    using cc3 by (simp add: cc1)
  have f: "frame_index (state_of (run ''d'' (Started ''cam'') (two_frames @ closing # two_frames) quiet init)) = 2"
    by (simp add: cc1 b)
  show ?thesis
    by (rule conjI [OF try_body_two_frames conjI [OF h conjI [OF t conjI [OF c conjI [OF e
          conjI [OF f mc]]]]]])
qed

text \<open>
  The claim as stated fails in its last clause. After two passes the thread is inside the
  loop; the root window is closed; the process exits and the daemon thread is ended: the stop
  event was never set, the teardown line is not printed and the camera is still open.
\<close>

theorem daemon_thread_killed_at_exit:
  "daemon init
   \<and> motor_controls_on_close (run ''d'' (Started ''cam'') two_frames quiet init)
       = Killed after_two_frames
   \<and> \<not> stop_event after_two_frames
   \<and> count_list (stdout after_two_frames) stopped_line = 0
   \<and> count_list (calls after_two_frames) Close = 0
   \<and> cam after_two_frames = Some (InstantCamera True)"
proof -
  have r: "run ''d'' (Started ''cam'') two_frames quiet init = Running after_two_frames"
    by (simp add: run_def try_body_two_frames)
  have "motor_controls_on_close (run ''d'' (Started ''cam'') two_frames quiet init)
       = Killed after_two_frames"
    by (simp add: r motor_controls_on_close_def interpreter_exit_def after_two_frames_def)
  moreover have "daemon init" by (simp add: init_def)
  moreover have "\<not> stop_event after_two_frames
   \<and> count_list (stdout after_two_frames) stopped_line = 0
   \<and> count_list (calls after_two_frames) Close = 0
   \<and> cam after_two_frames = Some (InstantCamera True)"
    by (simp add: after_two_frames_def stopped_line_def)
  ultimately show ?thesis by simp
qed

subsection \<open>A retrieval that raises\<close>

lemma failed_run:
  assumes "try_body dir (Started nm) pre init = StillRunning s1"
    and "\<not> window_closed e" and "is_grabbing e"
    and "outcome e = TimeoutException m \<or> outcome e = OtherException m"
  shows "\<exists>s. run dir (Started nm) (pre @ e # post) t init = Terminated s
     \<and> err s = Some m
     \<and> calls s = calls s1 @ RetrieveResult # teardown_calls t
     \<and> cadence s = cadence s1
     \<and> stdout s = [''[camera] Connected: '' @ nm, stopped_line]"
proof -
  from assms(1) have il: "in_loop nm s1" by (rule in_loop_still_running)
  then have ns: "\<not> stop_event s1" by (simp add: in_loop_def)
  let ?s2 = "(gui_events e s1)\<lparr>calls := calls s1 @ [RetrieveResult]\<rparr>"
  have it: "loop_iter dir e s1 = Raise m ?s2"
    using assms(2-4) ns by (auto simp add: loop_iter_timeout loop_iter_other)
  have r: "run dir (Started nm) (pre @ e # post) t init
           = Terminated (finally_block t (?s2\<lparr>err := Some m\<rparr>))"
    using assms(1) it by (rule run_raise)
  have g: "in_loop nm (?s2\<lparr>err := None, stop_event := False\<rparr>)"
    using il by (simp add: in_loop_def)
  have fb: "finally_block t (?s2\<lparr>err := Some m\<rparr>)
      = (finally_block t (?s2\<lparr>err := None, stop_event := False\<rparr>))
          \<lparr>err := Some m, stop_event := stop_event ?s2\<rparr>"
    by (simp add: finally_block_def Let_def split: option.splits)
  have c: "calls (finally_block t (?s2\<lparr>err := Some m\<rparr>)) = calls s1 @ RetrieveResult # teardown_calls t"
    by (subst fb) (simp add: finally_block_in_loop(1) [OF g])
  have o: "stdout (finally_block t (?s2\<lparr>err := Some m\<rparr>)) = [''[camera] Connected: '' @ nm, stopped_line]"
    using il by (simp add: in_loop_def)
  have k: "cadence (finally_block t (?s2\<lparr>err := Some m\<rparr>)) = cadence s1"
    by (simp add: cadence_def)
  have e: "err (finally_block t (?s2\<lparr>err := Some m\<rparr>)) = Some m" by simp
  from r e c k o show ?thesis by blast
qed

text \<open>
  Claim C1, as the code has it. \<^verbatim>\<open>RetrieveResult\<close> is called with
  \<^verbatim>\<open>TimeoutHandling_ThrowException\<close>, and the only handler is the \<^verbatim>\<open>except Exception\<close> around
  the whole loop. When the retrieval of a pass times out, the thread ends: the message of the
  exception is recorded in \<^verbatim>\<open>err\<close>, the calls made are those made before, that one
  \<^verbatim>\<open>RetrieveResult\<close> and the teardown calls, whatever the script holds after, the saves are as
  before, and the teardown line is printed.
\<close>

theorem retrieval_timeout_ends_the_loop:
  assumes "try_body dir (Started nm) pre init = StillRunning s1"
    and "\<not> window_closed e" and "is_grabbing e"
    and "outcome e = TimeoutException m"
  shows "\<exists>s. run dir (Started nm) (pre @ e # post) t init = Terminated s
     \<and> err s = Some m
     \<and> calls s = calls s1 @ RetrieveResult # teardown_calls t
     \<and> cadence s = cadence s1
     \<and> stdout s = [''[camera] Connected: '' @ nm, stopped_line]"
  using assms(1-3) by (rule failed_run) (simp add: assms(4))

theorem retrieval_timeout_ends_the_loop_witness:
  "try_body ''d'' (Started ''cam'') two_frames init = StillRunning after_two_frames
   \<and> \<not> window_closed timing_out \<and> is_grabbing timing_out
   \<and> outcome timing_out = TimeoutException ''Grab timed out.''
   \<and> (\<exists>s. run ''d'' (Started ''cam'') (two_frames @ timing_out # two_frames) quiet init = Terminated s
        \<and> err s = Some ''Grab timed out.''
        \<and> calls s = [Open, StartGrabbing, RetrieveResult, Release, RetrieveResult, Release,
                      RetrieveResult, StopGrabbing, Close])"
proof -
  have h: "\<not> window_closed timing_out" "is_grabbing timing_out"
    "outcome timing_out = TimeoutException ''Grab timed out.''"
    by (simp_all add: timing_out_def pass_def)
  from retrieval_timeout_ends_the_loop [OF try_body_two_frames h, of two_frames quiet]
  obtain s where r: "run ''d'' (Started ''cam'') (two_frames @ timing_out # two_frames) quiet init = Terminated s"
    and e: "err s = Some ''Grab timed out.''"
    and c: "calls s = calls after_two_frames @ RetrieveResult # teardown_calls quiet"
    by (elim exE conjE) (rule that)
  have "calls s = [Open, StartGrabbing, RetrieveResult, Release, RetrieveResult, Release,
                      RetrieveResult, StopGrabbing, Close]"
    by (simp add: c after_two_frames_def teardown_calls_def quiet_def)
  with r e have "\<exists>s. run ''d'' (Started ''cam'') (two_frames @ timing_out # two_frames) quiet init = Terminated s
        \<and> err s = Some ''Grab timed out.''
        \<and> calls s = [Open, StartGrabbing, RetrieveResult, Release, RetrieveResult, Release,
                      RetrieveResult, StopGrabbing, Close]"
    by (intro exI [of _ s] conjI)
  with try_body_two_frames h show ?thesis by (intro conjI)
qed

text \<open>
  The claim as stated fails: in the run below the first retrieval times out and a frame would
  follow, yet the thread has ended, an error is recorded, \<^verbatim>\<open>RetrieveResult\<close> was called once
  and nothing was saved.
\<close>

theorem retrieval_timeout_not_swallowed:
  "is_Terminated (run ''d'' (Started ''cam'') (timing_out # two_frames) quiet init)
   \<and> err (state_of (run ''d'' (Started ''cam'') (timing_out # two_frames) quiet init))
       = Some ''Grab timed out.''
   \<and> count_list (calls (state_of (run ''d'' (Started ''cam'') (timing_out # two_frames) quiet init)))
       RetrieveResult = 1
   \<and> frame_index (state_of (run ''d'' (Started ''cam'') (timing_out # two_frames) quiet init)) = 0"
  by (simp add: timing_out_def two_frames_def run_eval)

text \<open>
  Claim C7, as the code has it. When a retrieval raises, the thread ends with \<^verbatim>\<open>str(e)\<close> in
  \<^verbatim>\<open>err\<close>, and nothing that can still happen changes it: after any number of UI ticks \<^verbatim>\<open>err\<close>
  is that same string, \<^verbatim>\<open>on_close\<close> leaves it, and so would a pass of the loop. The string is
  what the exception gave: when it is not empty, every read finds it non-empty and the text
  shown is the error text.
\<close>

theorem error_latching:
  assumes "try_body dir (Started nm) pre init = StillRunning s1"
    and "\<not> window_closed e" and "is_grabbing e"
    and "outcome e = OtherException m"
  shows "\<exists>s. run dir (Started nm) (pre @ e # post) t init = Terminated s
     \<and> err s = Some m
     \<and> (\<forall>n. err (ui_polls n s) = Some m
            \<and> (m \<noteq> [] \<longrightarrow> snd (fst (update_ui (ui_polls n s))) = ErrorText m))
     \<and> err (on_close s) = Some m
     \<and> (\<forall>e'. err (step_state (loop_iter dir e' s)) = Some m)"
proof -
  from failed_run [OF assms(1-3), of m post t] assms(4)
  obtain s where r: "run dir (Started nm) (pre @ e # post) t init = Terminated s"
    and e: "err s = Some m"
    by blast
  have p: "err (ui_polls n s) = Some m" for n by (simp add: e)
  have i: "m \<noteq> [] \<longrightarrow> snd (fst (update_ui (ui_polls n s))) = ErrorText m" for n
    using info_update_ui [OF p] by blast
  have o: "err (on_close s) = Some m" by (simp add: on_close_def e)
  have l: "err (step_state (loop_iter dir e' s)) = Some m" for e' by (simp add: e)
  from r e p i o l show ?thesis by blast
qed

theorem error_latching_witness:
  "try_body ''d'' (Started ''cam'') two_frames init = StillRunning after_two_frames
   \<and> \<not> window_closed device_removed \<and> is_grabbing device_removed
   \<and> outcome device_removed = OtherException ''Device removed.''
   \<and> ''Device removed.'' \<noteq> ''''
   \<and> (\<exists>s. run ''d'' (Started ''cam'') (two_frames @ device_removed # two_frames) quiet init = Terminated s
        \<and> err (ui_polls 3 s) = Some ''Device removed.''
        \<and> snd (fst (update_ui (ui_polls 3 s))) = ErrorText ''Device removed.'')"
proof -
  have h: "\<not> window_closed device_removed" "is_grabbing device_removed"
    "outcome device_removed = OtherException ''Device removed.''"
    by (simp_all add: device_removed_def pass_def)
  have ne: "''Device removed.'' \<noteq> ''''" by simp
  from error_latching [OF try_body_two_frames h, of two_frames quiet]
  obtain s where r: "run ''d'' (Started ''cam'') (two_frames @ device_removed # two_frames) quiet init = Terminated s"
    and a: "\<forall>n. err (ui_polls n s) = Some ''Device removed.''
            \<and> (''Device removed.'' \<noteq> [] \<longrightarrow> snd (fst (update_ui (ui_polls n s))) = ErrorText ''Device removed.'')"
    by (elim exE conjE) (rule that)
  from a have a3: "err (ui_polls 3 s) = Some ''Device removed.''
            \<and> (''Device removed.'' \<noteq> [] \<longrightarrow> snd (fst (update_ui (ui_polls 3 s))) = ErrorText ''Device removed.'')"
    by (rule spec)
  then have b: "err (ui_polls 3 s) = Some ''Device removed.''" by (rule conjunct1)
  from a3 ne have c: "snd (fst (update_ui (ui_polls 3 s))) = ErrorText ''Device removed.''"
    by (elim conjE impE) assumption+
  from r b c have "\<exists>s. run ''d'' (Started ''cam'') (two_frames @ device_removed # two_frames) quiet init = Terminated s
        \<and> err (ui_polls 3 s) = Some ''Device removed.''
        \<and> snd (fst (update_ui (ui_polls 3 s))) = ErrorText ''Device removed.''"
    by (intro exI [of _ s] conjI)
  with try_body_two_frames h ne show ?thesis by (intro conjI)
qed

text \<open>
  The claim as stated fails: line 83 stores \<^verbatim>\<open>str(e)\<close> whatever it is and line 123 tests
  \<^verbatim>\<open>grabber.err\<close> for truth. When the retrieval raises an exception whose string is empty, the
  thread has ended on the failure, yet the error string is empty and the window reports the
  saved-frame count.
\<close>

theorem empty_message_reads_healthy:
  "is_Terminated (run ''d'' (Started ''cam'') (two_frames @ [silent_failure]) quiet init)
   \<and> err (state_of (run ''d'' (Started ''cam'') (two_frames @ [silent_failure]) quiet init)) = Some []
   \<and> snd (fst (update_ui
         (state_of (run ''d'' (Started ''cam'') (two_frames @ [silent_failure]) quiet init))))
       = Streaming 2"
proof -
  let ?s2 = "(gui_events silent_failure after_two_frames)
               \<lparr>calls := calls after_two_frames @ [RetrieveResult]\<rparr>"
  have "loop_iter ''d'' silent_failure after_two_frames = Raise [] ?s2"
    by (rule loop_iter_other) (simp_all add: silent_failure_def pass_def after_two_frames_def)
  with try_body_two_frames
  have r: "run ''d'' (Started ''cam'') (two_frames @ [silent_failure]) quiet init
      = Terminated (finally_block quiet (?s2\<lparr>err := Some []\<rparr>))"
    by (rule run_raise)
  have e: "err (finally_block quiet (?s2\<lparr>err := Some []\<rparr>)) = Some []" by simp
  have f: "frame_index after_two_frames = 2"
    by (simp add: after_two_frames_def)
  have u: "snd (fst (update_ui (finally_block quiet (?s2\<lparr>err := Some []\<rparr>)))) = Streaming 2"
    by (simp add: update_ui_def f)
  from e u show ?thesis by (simp add: r)
qed

subsection \<open>Teardown\<close>

lemma calls_loop_iter:
  "calls (step_state (loop_iter dir e s)) = calls s
   \<or> calls (step_state (loop_iter dir e s)) = calls s @ [RetrieveResult]
   \<or> calls (step_state (loop_iter dir e s)) = calls s @ [RetrieveResult, Release]"
  by (rule loop_iter_cases [of e s])
     (simp_all add: loop_iter_break loop_iter_timeout loop_iter_other loop_iter_grab_failed loop_iter_grabbed)

lemma stdout_loop_iter [simp]: "stdout (step_state (loop_iter dir e s)) = stdout s"
  by (rule loop_iter_cases [of e s])
     (simp_all add: loop_iter_break loop_iter_timeout loop_iter_other loop_iter_grab_failed loop_iter_grabbed)

lemma cam_loop_iter [simp]: "cam (step_state (loop_iter dir e s)) = cam s"
  by (rule loop_iter_cases [of e s])
     (simp_all add: loop_iter_break loop_iter_timeout loop_iter_other loop_iter_grab_failed loop_iter_grabbed)

lemma before_teardown_loop_iter:
  "before_teardown s \<Longrightarrow> before_teardown (step_state (loop_iter dir e s))"
  using calls_loop_iter [of dir e s] by (auto simp add: before_teardown_def)

lemma before_teardown_run_loop:
  "before_teardown s \<Longrightarrow> before_teardown (loop_state (run_loop dir es s))"
  by (rule run_loop_invariant [where P = before_teardown]) (simp_all add: before_teardown_loop_iter)

lemma cam_run_loop [simp]: "cam (loop_state (run_loop dir es s)) = cam s"
  by (rule run_loop_invariant [where P = "\<lambda>x. cam x = cam s"]) simp_all

lemma connected_not_stopped: "''[camera] Connected: '' @ nm \<noteq> stopped_line"
  by (simp add: stopped_line_def)

lemma before_teardown_try_body: "before_teardown (loop_state (try_body dir st es init))"
proof (cases st)
  case (Started nm)
  have "before_teardown (init\<lparr>cam := Some (InstantCamera True), calls := calls init @ [Open, StartGrabbing],
               stdout := stdout init @ [''[camera] Connected: '' @ nm]\<rparr>)"
    using connected_not_stopped [of nm] by (simp add: before_teardown_def init_def)
  then show ?thesis using Started by (simp add: try_body_Started before_teardown_run_loop)
next
  case (RaisedAfterOpen printed m)
  then show ?thesis
    by (simp add: try_body_def before_teardown_def init_def stopped_line_def split: option.splits)
next
  case (RaisedInStartGrabbing nm m)
  then show ?thesis
    by (simp add: try_body_def before_teardown_def init_def stopped_line_def)
qed (simp_all add: try_body_def before_teardown_def init_def)

lemma finally_block_counts:
  assumes "before_teardown s"
  shows "count_list (stdout (finally_block t s)) stopped_line = 1"
    and "cam s = None \<Longrightarrow> calls (finally_block t s) = calls s \<and> cam (finally_block t s) = None"
    and "cam s \<noteq> None \<Longrightarrow> count_list (calls (finally_block t s)) StopGrabbing = 1"
    and "cam s \<noteq> None \<Longrightarrow> \<not> stop_grabbing_raises t \<Longrightarrow> count_list (calls (finally_block t s)) Close = 1"
    and "cam s \<noteq> None \<Longrightarrow> \<not> stop_grabbing_raises t \<Longrightarrow> \<not> close_raises t \<Longrightarrow>
           cam (finally_block t s) = Some (InstantCamera False)"
    and "(cam (finally_block t s) = None) = (cam s = None)"
  using assms
  by (auto simp add: before_teardown_def finally_block_def Let_def count_list_0_iff split: option.splits)

lemma before_teardown_err [simp]: "before_teardown (s\<lparr>err := x\<rparr>) = before_teardown s"
  by (simp add: before_teardown_def)

lemma cam_try_body:
  "(cam (loop_state (try_body dir st es init)) = None)
     = (st = NoDevices \<or> (\<exists>m. st = RaisedBeforeCam m))"
  by (cases st) (simp_all add: try_body_def init_def)

lemma run_cases:
  obtains (running) s' where "run dir st es t init = Running s'"
      "try_body dir st es init = StillRunning s'"
  | (terminated) s' where "run dir st es t init = Terminated (finally_block t s')"
      "before_teardown s'" "cam s' = cam (loop_state (try_body dir st es init))"
      "\<forall>x. try_body dir st es init \<noteq> StillRunning x"
proof (cases "try_body dir st es init")
  case (StillRunning s')
  then have "run dir st es t init = Running s'" by (simp add: run_def)
  then show ?thesis using StillRunning by (rule running)
next
  case (Exited s')
  have "before_teardown s'" using before_teardown_try_body [of dir st es] Exited by simp
  moreover have "run dir st es t init = Terminated (finally_block t s')"
    using Exited by (simp add: run_def)
  ultimately show ?thesis using Exited by (intro terminated [of s']) simp_all
next
  case (Raised m s')
  have "before_teardown (s'\<lparr>err := Some m\<rparr>)"
    using before_teardown_try_body [of dir st es] Raised by simp
  moreover have "run dir st es t init = Terminated (finally_block t (s'\<lparr>err := Some m\<rparr>))"
    using Raised by (simp add: run_def)
  ultimately show ?thesis using Raised by (intro terminated [of "s'\<lparr>err := Some m\<rparr>"]) simp_all
qed

text \<open>
  Claim C2, as the code has it. The thread ends on every path out of the \<^verbatim>\<open>try\<close> body (stop
  event seen set, camera no longer grabbing, no device found, an exception in the start-up or
  in the loop); it is still running only while the loop is. When it has ended, the
  \<^verbatim>\<open>finally\<close> block has run exactly once (its line is printed once); what its calls raise
  is passed over, so the thread ends all the same and \<^verbatim>\<open>err\<close> is what the body left, whatever
  the teardown calls did. The block is guarded by \<^verbatim>\<open>if self.cam\<close>: when no camera object was
  created (no device, or an exception before \<^verbatim>\<open>self.cam\<close> is assigned) it makes no SDK call and
  there is no handle; when there is a camera object, \<^verbatim>\<open>StopGrabbing()\<close> is called once, and if
  it returns, \<^verbatim>\<open>Close()\<close> is called once, and if that returns, the camera is closed.
\<close>

theorem teardown_on_every_exit:
  "(is_Terminated (run dir st es t init) \<longleftrightarrow> (\<forall>x. try_body dir st es init \<noteq> StillRunning x))
   \<and> err (state_of (run dir st es t init)) = err (state_of (run dir st es t' init))
   \<and> (is_Terminated (run dir st es t init) \<longrightarrow>
        count_list (stdout (state_of (run dir st es t init))) stopped_line = 1
      \<and> ((cam (state_of (run dir st es t init)) = None)
            = (st = NoDevices \<or> (\<exists>m. st = RaisedBeforeCam m)))
      \<and> (cam (state_of (run dir st es t init)) = None \<longrightarrow>
            count_list (calls (state_of (run dir st es t init))) StopGrabbing = 0
          \<and> count_list (calls (state_of (run dir st es t init))) Close = 0)
      \<and> (cam (state_of (run dir st es t init)) \<noteq> None \<longrightarrow>
            count_list (calls (state_of (run dir st es t init))) StopGrabbing = 1
          \<and> (\<not> stop_grabbing_raises t \<longrightarrow>
                count_list (calls (state_of (run dir st es t init))) Close = 1
              \<and> (\<not> close_raises t \<longrightarrow>
                    cam (state_of (run dir st es t init)) = Some (InstantCamera False)))))"
proof -
  have 0: "err (state_of (run dir st es t init)) = err (state_of (run dir st es t' init))"
    by (cases "try_body dir st es init") (simp_all add: run_def)
  show ?thesis
  proof (rule run_cases [of dir st es t])
    fix s'
    assume "run dir st es t init = Running s'" "try_body dir st es init = StillRunning s'"
    then show ?thesis using 0 by auto
  next
    fix s'
    assume r: "run dir st es t init = Terminated (finally_block t s')"
      and b: "before_teardown s'"
      and c: "cam s' = cam (loop_state (try_body dir st es init))"
      and n: "\<forall>x. try_body dir st es init \<noteq> StillRunning x"
    note f = finally_block_counts [OF b, of t]
    have c': "(cam s' = None) = (st = NoDevices \<or> (\<exists>m. st = RaisedBeforeCam m))"
      by (simp only: c cam_try_body)
    have z: "cam s' = None \<Longrightarrow> count_list (calls (finally_block t s')) StopGrabbing = 0
            \<and> count_list (calls (finally_block t s')) Close = 0"
      using f(2) b by (simp add: before_teardown_def count_list_0_iff)
    have 1: "is_Terminated (run dir st es t init) \<longleftrightarrow> (\<forall>x. try_body dir st es init \<noteq> StillRunning x)"
      using r n by simp
    have 2: "count_list (stdout (state_of (run dir st es t init))) stopped_line = 1"
      using f(1) by (simp only: r run_result.sel)
    have 3: "(cam (state_of (run dir st es t init)) = None)
              = (st = NoDevices \<or> (\<exists>m. st = RaisedBeforeCam m))"
      using f(6) c' by (simp only: r run_result.sel)
    have 4: "cam (state_of (run dir st es t init)) = None \<longrightarrow>
              count_list (calls (state_of (run dir st es t init))) StopGrabbing = 0
            \<and> count_list (calls (state_of (run dir st es t init))) Close = 0"
      using z f(6) by (simp only: r run_result.sel) blast
    have 5: "cam (state_of (run dir st es t init)) \<noteq> None \<longrightarrow>
              count_list (calls (state_of (run dir st es t init))) StopGrabbing = 1
            \<and> (\<not> stop_grabbing_raises t \<longrightarrow>
                  count_list (calls (state_of (run dir st es t init))) Close = 1
                \<and> (\<not> close_raises t \<longrightarrow>
                      cam (state_of (run dir st es t init)) = Some (InstantCamera False)))"
      using f(3,4,5,6) by (simp only: r run_result.sel) blast
    from 0 1 2 3 4 5 show ?thesis by blast
  qed
qed

theorem teardown_on_every_exit_witness:
  "is_Terminated (run ''d'' (Started ''cam'') (two_frames @ [closing]) quiet init)
   \<and> cam (state_of (run ''d'' (Started ''cam'') (two_frames @ [closing]) quiet init)) \<noteq> None
   \<and> \<not> stop_grabbing_raises quiet \<and> \<not> close_raises quiet
   \<and> count_list (stdout (state_of (run ''d'' (Started ''cam'') (two_frames @ [closing]) quiet init)))
        stopped_line = 1
   \<and> count_list (calls (state_of (run ''d'' (Started ''cam'') (two_frames @ [closing]) quiet init)))
        Close = 1
   \<and> cam (state_of (run ''d'' (Started ''cam'') (two_frames @ [closing]) quiet init))
        = Some (InstantCamera False)
   \<and> is_Terminated (run ''d'' NoDevices [] quiet init)
   \<and> cam (state_of (run ''d'' NoDevices [] quiet init)) = None
   \<and> count_list (calls (state_of (run ''d'' NoDevices [] quiet init))) StopGrabbing = 0"
proof -
  have t1: "is_Terminated (run ''d'' (Started ''cam'') (two_frames @ [closing]) quiet init)"
    by (simp add: run_def try_body_append [OF try_body_two_frames] loop_iter_def gui_events_def
        on_close_def closing_def Let_def)
  have q: "\<not> stop_grabbing_raises quiet" "\<not> close_raises quiet" by (simp_all add: quiet_def)
  have t2: "is_Terminated (run ''d'' NoDevices [] quiet init)"
    by (simp add: run_def try_body_def)
  note a = teardown_on_every_exit [of "''d''" "Started ''cam''" "two_frames @ [closing]" quiet]
  note b = teardown_on_every_exit [of "''d''" NoDevices "[]" quiet]
  from a t1 q b t2 show ?thesis by simp
qed

text \<open>
  The claim as stated fails. With no device the thread ends without any attempt to close
  anything; and when \<^verbatim>\<open>StopGrabbing()\<close> raises in the \<^verbatim>\<open>finally\<close> block, \<^verbatim>\<open>Close()\<close> is not
  called and the camera stays open.
\<close>

theorem close_not_always_attempted:
  "is_Terminated (run ''d'' NoDevices [] quiet init)
   \<and> calls (state_of (run ''d'' NoDevices [] quiet init)) = []
   \<and> is_Terminated (run ''d'' (Started ''cam'') [closing] stop_grabbing_fails init)
   \<and> calls (state_of (run ''d'' (Started ''cam'') [closing] stop_grabbing_fails init))
       = [Open, StartGrabbing, StopGrabbing]
   \<and> cam (state_of (run ''d'' (Started ''cam'') [closing] stop_grabbing_fails init))
       = Some (InstantCamera True)"
  by (simp add: closing_def stop_grabbing_fails_def run_eval)

subsection \<open>The preview queue under the loop\<close>

lemma q_gui_events: "\<not> ui_tick e \<Longrightarrow> q (gui_events e s) = q s"
  by (simp add: gui_events_def on_close_def)

lemma q_loop_iter_grabbed:
  assumes "\<not> window_closed e" "\<not> stop_event s" "is_grabbing e" "outcome e = Grabbed f" "\<not> ui_tick e"
  shows "\<exists>s'. loop_iter dir e s = Continue s' \<and> q s' = q (offer f s) \<and> \<not> stop_event s'"
proof -
  have "q (offer f ((gui_events e s)\<lparr>calls := calls s @ [RetrieveResult]\<rparr>)) = q (offer f s)"
    using assms(5) by (simp add: q_offer q_gui_events)
  then show ?thesis using assms(1-4) by (simp add: loop_iter_grabbed)
qed

lemma length_grabbed_frames:
  "\<forall>e\<in>set es. \<exists>f. outcome e = Grabbed f \<Longrightarrow> length (grabbed_frames es) = length es"
proof (induction es)
  case Nil
  then show ?case by (simp add: grabbed_frames_def)
next
  case (Cons e es)
  then obtain f where "outcome e = Grabbed f" by auto
  moreover from Cons have "length (grabbed_frames es) = length es" by simp
  ultimately show ?case by (simp add: grabbed_frames_def)
qed

lemma run_loop_preview_queue:
  assumes "\<forall>e\<in>set es. \<not> window_closed e \<and> \<not> ui_tick e \<and> is_grabbing e \<and> (\<exists>f. outcome e = Grabbed f)"
    and "\<not> stop_event s" and "length (q s) \<le> maxsize"
  shows "\<exists>s'. run_loop dir es s = StillRunning s' \<and> q s' = take maxsize (q s @ grabbed_frames es)"
  using assms
proof (induction es arbitrary: s)
  case Nil
  then show ?case by (simp add: grabbed_frames_def)
next
  case (Cons e es)
  from Cons.prems(1) obtain f where f: "outcome e = Grabbed f" by auto
  from Cons.prems(1,2) f obtain s1 where
    s1: "loop_iter dir e s = Continue s1" "q s1 = q (offer f s)" "\<not> stop_event s1"
    using q_loop_iter_grabbed [of e s f dir] by auto
  have l: "length (q s1) \<le> maxsize" using Cons.prems(3) by (simp add: s1(2) q_offer)
  from Cons.prems(1) have "\<forall>e\<in>set es. \<not> window_closed e \<and> \<not> ui_tick e \<and> is_grabbing e \<and> (\<exists>f. outcome e = Grabbed f)"
    by simp
  from Cons.IH [OF this s1(3) l] obtain s' where
    s': "run_loop dir es s1 = StillRunning s'" "q s' = take maxsize (q s1 @ grabbed_frames es)"
    by blast
  have g: "grabbed_frames (e # es) = f # grabbed_frames es" by (simp add: grabbed_frames_def f)
  have "take maxsize (q s1 @ grabbed_frames es) = take maxsize (q s @ f # grabbed_frames es)"
  proof (cases "maxsize \<le> length (q s)")
    case True
    with Cons.prems(3) have "length (q s) = maxsize" by simp
    then show ?thesis by (simp add: s1(2) q_offer)
  next
    case False
    then have "q s1 = q s @ [f]" by (simp add: s1(2) q_offer)
    then show ?thesis by simp
  qed
  with s' s1(1) g show ?case by simp
qed

text \<open>
  Claim C4. Offering the frames \<open>fs\<close> one after the other to the empty capacity-2 queue,
  with no drain in between, leaves exactly the first \<open>min N 2\<close> of them, in order; after
  every prefix of the attempts the queue holds at most two frames; and a single attempt
  returns at once in both cases, appending when there is room and leaving the whole state
  as it was (no error recorded) when the queue is full. So it is in the thread: after \<open>N\<close>
  passes that each retrieved a frame, with no UI tick in between, the thread is still in the
  loop and the queue holds the first \<open>min N 2\<close> frames retrieved.
\<close>

theorem preview_buffer_drop_newest:
  "q (fold offer fs init) = take (min (length fs) 2) fs
   \<and> (\<forall>n. length (q (fold offer (take n fs) init)) \<le> 2)
   \<and> (\<forall>f s. offer f s = (if length (q s) < 2 then s\<lparr>q := q s @ [f]\<rparr> else s))
   \<and> ((\<forall>e\<in>set es. \<not> window_closed e \<and> \<not> ui_tick e \<and> is_grabbing e \<and> (\<exists>f. outcome e = Grabbed f))
       \<longrightarrow> (\<exists>s'. run dir (Started nm) es t init = Running s'
              \<and> q s' = take (min (length es) 2) (grabbed_frames es)))"
proof -
  have i: "length (q init) \<le> maxsize" by (simp add: init_def)
  have a: "q (fold offer fs init) = take (min (length fs) 2) fs"
    using q_fold_offer [OF i, of fs] by (simp add: init_def maxsize_def min_def)
  have b: "\<forall>n. length (q (fold offer (take n fs) init)) \<le> 2"
    using length_q_fold_offer [OF i] by (simp add: maxsize_def)
  have c: "\<forall>f s. offer f s = (if length (q s) < 2 then s\<lparr>q := q s @ [f]\<rparr> else s)"
    by (simp add: offer_def put_nowait_def maxsize_def not_less)
  have d: "(\<forall>e\<in>set es. \<not> window_closed e \<and> \<not> ui_tick e \<and> is_grabbing e \<and> (\<exists>f. outcome e = Grabbed f))
       \<longrightarrow> (\<exists>s'. run dir (Started nm) es t init = Running s'
              \<and> q s' = take (min (length es) 2) (grabbed_frames es))"
  proof (rule impI)
    assume h: "\<forall>e\<in>set es. \<not> window_closed e \<and> \<not> ui_tick e \<and> is_grabbing e \<and> (\<exists>f. outcome e = Grabbed f)"
    let ?s0 = "init\<lparr>cam := Some (InstantCamera True), calls := calls init @ [Open, StartGrabbing],
               stdout := stdout init @ [''[camera] Connected: '' @ nm]\<rparr>"
    have "\<not> stop_event ?s0" "length (q ?s0) \<le> maxsize" by (simp_all add: init_def)
    from run_loop_preview_queue [OF h this, of dir] obtain s' where
      s': "run_loop dir es ?s0 = StillRunning s'" "q s' = take maxsize (q ?s0 @ grabbed_frames es)"
      by blast
    from h have "\<forall>e\<in>set es. \<exists>f. outcome e = Grabbed f" by simp
    then have "length (grabbed_frames es) = length es" by (rule length_grabbed_frames)
    then have "q s' = take (min (length es) 2) (grabbed_frames es)"
      by (simp add: s'(2) init_def maxsize_def min_def)
    moreover have "try_body dir (Started nm) es init = StillRunning s'"
      using s'(1) by (simp only: try_body_Started)
    then have "run dir (Started nm) es t init = Running s'"
      by (simp add: run_def)
    ultimately show "\<exists>s'. run dir (Started nm) es t init = Running s'
              \<and> q s' = take (min (length es) 2) (grabbed_frames es)"
      by (intro exI [of _ s'] conjI)
  qed
  show ?thesis by (rule conjI [OF a conjI [OF b conjI [OF c d]]])
qed

theorem preview_buffer_drop_newest_witness:
  "q (fold offer [[[1]], [[2]], [[3]]] init) = [[[1]], [[2]]]
   \<and> length (q (fold offer (take 3 [[[1]], [[2]], [[3]]]) init)) \<le> 2
   \<and> offer [[3]] (init\<lparr>q := [[[1]], [[2]]]\<rparr>) = init\<lparr>q := [[[1]], [[2]]]\<rparr>
   \<and> (\<exists>s'. run ''d'' (Started ''cam'') (two_frames @ two_frames) quiet init = Running s'
         \<and> q s' = [[[7]], [[8]]])"
proof -
  note p = preview_buffer_drop_newest [of "[[[1]], [[2]], [[3]]]" "two_frames @ two_frames" "''d''" "''cam''" quiet]
  have h: "\<forall>e\<in>set (two_frames @ two_frames).
      \<not> window_closed e \<and> \<not> ui_tick e \<and> is_grabbing e \<and> (\<exists>f. outcome e = Grabbed f)"
    by (simp add: two_frames_def pass_def)
  have g: "take (min (length (two_frames @ two_frames)) 2) (grabbed_frames (two_frames @ two_frames))
      = [[[7]], [[8]]]"
    by (simp add: two_frames_def grabbed_frames_def pass_def)
  note p1 = p [THEN conjunct1]
  note p2 = p [THEN conjunct2, THEN conjunct1, THEN spec, of 3]
  note p3 = p [THEN conjunct2, THEN conjunct2, THEN conjunct1, THEN spec, THEN spec,
      of "[[3]]" "init\<lparr>q := [[[1]], [[2]]]\<rparr>"]
  note p4 = p [THEN conjunct2, THEN conjunct2, THEN conjunct2, THEN mp, OF h]
  have a: "q (fold offer [[[1]], [[2]], [[3]]] init) = [[[1]], [[2]]]"
    using p1 by simp
  have b: "length (q (fold offer (take 3 [[[1]], [[2]], [[3]]]) init)) \<le> 2"
    using p2 .
  have c: "offer [[3]] (init\<lparr>q := [[[1]], [[2]]]\<rparr>) = init\<lparr>q := [[[1]], [[2]]]\<rparr>"
    using p3 by simp
  have d: "\<exists>s'. run ''d'' (Started ''cam'') (two_frames @ two_frames) quiet init = Running s'
         \<and> q s' = [[[7]], [[8]]]"
    using p4 by (simp only: g)
  show ?thesis by (rule conjI [OF a conjI [OF b conjI [OF c d]]])
qed

end
